theory Spec2Isabelle
  imports Main "HOL-Library.Word" "HOL-Library.Log_Nat"
begin

unbundle bit_operations_syntax

section \<open>The blur of \<^verbatim>\<open>blur_simd.c\<close>: data model\<close>

text \<open>
  The file \<^verbatim>\<open>src/blur_simd.c\<close> blurs an image of packed 32-bit pixels with a 7-tap
  kernel, in two back ends (\<^verbatim>\<open>blur_impl_sse2\<close>, \<^verbatim>\<open>blur_impl_avx\<close>). Each back end
  prepares a kernel from \<^verbatim>\<open>sigma\<close> and calls its horizontal pass twice.

  Conventions of the embedding.
  \<^item> A C \<^verbatim>\<open>int\<close> is an \<open>int\<close>: no claim depends on overflow of \<^verbatim>\<open>width\<close>,
    \<^verbatim>\<open>height\<close> or an index.
  \<^item> A pixel (\<^verbatim>\<open>uint32_t\<close>) is a \<open>32 word\<close>; channel \<open>k\<close> is byte \<open>k\<close> of the word
    (x86 is little-endian).
  \<^item> A pixel buffer (\<^verbatim>\<open>uint32_t *\<close>) is the list of its pixels. A pointer into it is an
    offset from its first pixel. A read or a write outside the list is undefined in C; here
    it stops the computation with an error value.
  \<^item> A subscript outside the declared size of a local array stops the computation with an
    error value as well.
  \<^item> An \<^verbatim>\<open>__m128i\<close> is the list of its 16 bytes, lowest first; the 16-bit and 32-bit
    lanes the intrinsics work on are read from and written to these bytes.
  \<^item> \<^verbatim>\<open>float\<close> and \<^verbatim>\<open>double\<close> are type parameters \<open>'f\<close> and \<open>'d\<close>. The arithmetic of
    the processor is a record of operations (\<open>fpu\<close>), the functions of \<^verbatim>\<open>math.h\<close> and the
    double precision steps of the kernel preparation are a second record (\<open>cmath\<close>). A
    concrete \<open>fpu\<close> for IEEE binary32 with round-to-nearest-even is given below
    (\<open>binary32_fpu\<close>), and a concrete \<open>cmath\<close> over binary64 (\<open>libm\<close>).
\<close>

type_synonym u8 = "8 word"
type_synonym u16 = "16 word"
type_synonym u32 = "32 word"
type_synonym m128i = "u8 list"

datatype error =
    ReadOutOfBounds int
  | WriteOutOfBounds int
  | ArrayOutOfBounds string int

definition rbind :: "error + 'a \<Rightarrow> ('a \<Rightarrow> error + 'b) \<Rightarrow> error + 'b" where
  "rbind m f = (case m of Inl e \<Rightarrow> Inl e | Inr v \<Rightarrow> f v)"

lemma rbind_cong [fundef_cong]:
  "m = m' \<Longrightarrow> (\<And>v. m' = Inr v \<Longrightarrow> f v = f' v) \<Longrightarrow> rbind m f = rbind m' f'"
  by (auto simp: rbind_def split: sum.splits)

fun mapM :: "('a \<Rightarrow> error + 'b) \<Rightarrow> 'a list \<Rightarrow> error + 'b list" where
  "mapM f [] = Inr []"
| "mapM f (x # xs) = rbind (f x) (\<lambda>y. rbind (mapM f xs) (\<lambda>ys. Inr (y # ys)))"

subsection \<open>Compile-time constants\<close>

text \<open>
  \<^verbatim>\<open>#define KERNEL_SIZE 7\<close>, \<^verbatim>\<open>#define HALF_KERNEL KERNEL_SIZE / 2\<close> and
  \<^verbatim>\<open>#define REGISTERS_CNT (KERNEL_SIZE + 4/2) / 4\<close>. The bodies of the last two are not
  parenthesised; at every place the file uses them (\<^verbatim>\<open>column < HALF_KERNEL\<close>,
  \<^verbatim>\<open>width - HALF_KERNEL\<close>, \<^verbatim>\<open>HALF_KERNEL - i\<close>, \<^verbatim>\<open>HALF_KERNEL - column\<close>,
  \<^verbatim>\<open>4*k - HALF_KERNEL\<close>, \<^verbatim>\<open>k < REGISTERS_CNT\<close>, the array sizes) the textual expansion has the
  value of the parenthesised one, since \<^verbatim>\<open>/\<close> binds tighter than \<^verbatim>\<open>-\<close> and \<^verbatim>\<open><\<close>.
  The divisions are C integer divisions of non-negative numbers.
\<close>

definition KERNEL_SIZE :: int where
  "KERNEL_SIZE = 7"

definition HALF_KERNEL :: int where
  "HALF_KERNEL = KERNEL_SIZE div 2"

definition REGISTERS_CNT :: int where
  "REGISTERS_CNT = (KERNEL_SIZE + 4 div 2) div 4"

subsection \<open>Buffers and local arrays\<close>

definition load_u32 :: "u32 list \<Rightarrow> int \<Rightarrow> error + u32" where
  "load_u32 buf i =
     (if 0 \<le> i \<and> i < int (length buf) then Inr (buf ! nat i) else Inl (ReadOutOfBounds i))"

definition store_u32 :: "u32 list \<Rightarrow> int \<Rightarrow> u32 \<Rightarrow> error + u32 list" where
  "store_u32 buf i v =
     (if 0 \<le> i \<and> i < int (length buf) then Inr (buf[nat i := v]) else Inl (WriteOutOfBounds i))"

definition array_get :: "string \<Rightarrow> 'a list \<Rightarrow> int \<Rightarrow> error + 'a" where
  "array_get name a i =
     (if 0 \<le> i \<and> i < int (length a) then Inr (a ! nat i) else Inl (ArrayOutOfBounds name i))"

definition array_set :: "string \<Rightarrow> 'a list \<Rightarrow> int \<Rightarrow> 'a \<Rightarrow> error + 'a list" where
  "array_set name a i v =
     (if 0 \<le> i \<and> i < int (length a) then Inr (a[nat i := v]) else Inl (ArrayOutOfBounds name i))"

subsection \<open>Bytes and lanes of a 128-bit register\<close>

definition u16_of_bytes :: "u8 \<Rightarrow> u8 \<Rightarrow> u16" where
  "u16_of_bytes b0 b1 = ucast b0 OR push_bit 8 (ucast b1)"

definition u32_of_bytes :: "u8 \<Rightarrow> u8 \<Rightarrow> u8 \<Rightarrow> u8 \<Rightarrow> u32" where
  "u32_of_bytes b0 b1 b2 b3 =
     ucast b0 OR push_bit 8 (ucast b1) OR push_bit 16 (ucast b2) OR push_bit 24 (ucast b3)"

definition bytes_of_u16 :: "u16 \<Rightarrow> u8 list" where
  "bytes_of_u16 w = [ucast w, ucast (drop_bit 8 w)]"

definition channel :: "u32 \<Rightarrow> nat \<Rightarrow> u8" where
  "channel p k = ucast (drop_bit (8 * k) p)"

definition bytes_of_u32 :: "u32 \<Rightarrow> u8 list" where
  "bytes_of_u32 p = [channel p 0, channel p 1, channel p 2, channel p 3]"

fun lanes16 :: "m128i \<Rightarrow> u16 list" where
  "lanes16 (b0 # b1 # bs) = u16_of_bytes b0 b1 # lanes16 bs"
| "lanes16 _ = []"

fun lanes32 :: "m128i \<Rightarrow> u32 list" where
  "lanes32 (b0 # b1 # b2 # b3 # bs) = u32_of_bytes b0 b1 b2 b3 # lanes32 bs"
| "lanes32 _ = []"

definition of_lanes16 :: "u16 list \<Rightarrow> m128i" where
  "of_lanes16 ws = concat (map bytes_of_u16 ws)"

definition of_lanes32 :: "u32 list \<Rightarrow> m128i" where
  "of_lanes32 ws = concat (map bytes_of_u32 ws)"

fun interleave :: "'a list \<Rightarrow> 'a list \<Rightarrow> 'a list" where
  "interleave (x # xs) (y # ys) = x # y # interleave xs ys"
| "interleave _ _ = []"

subsection \<open>Integer intrinsics (SSE2)\<close>

definition mm_setzero_si128 :: m128i where
  "mm_setzero_si128 = replicate 16 0"

text \<open>\<^verbatim>\<open>_mm_set_epi32(e3, e2, e1, e0)\<close>: \<open>e0\<close> is the lowest lane.\<close>

definition mm_set_epi32 :: "u32 \<Rightarrow> u32 \<Rightarrow> u32 \<Rightarrow> u32 \<Rightarrow> m128i" where
  "mm_set_epi32 e3 e2 e1 e0 = of_lanes32 [e0, e1, e2, e3]"

definition mm_unpacklo_epi8 :: "m128i \<Rightarrow> m128i \<Rightarrow> m128i" where
  "mm_unpacklo_epi8 a b = interleave (take 8 a) (take 8 b)"

definition mm_unpackhi_epi8 :: "m128i \<Rightarrow> m128i \<Rightarrow> m128i" where
  "mm_unpackhi_epi8 a b = interleave (drop 8 a) (drop 8 b)"

definition mm_unpacklo_epi16 :: "m128i \<Rightarrow> m128i \<Rightarrow> m128i" where
  "mm_unpacklo_epi16 a b = of_lanes16 (interleave (take 4 (lanes16 a)) (take 4 (lanes16 b)))"

definition mm_unpackhi_epi16 :: "m128i \<Rightarrow> m128i \<Rightarrow> m128i" where
  "mm_unpackhi_epi16 a b = of_lanes16 (interleave (drop 4 (lanes16 a)) (drop 4 (lanes16 b)))"

text \<open>\<^verbatim>\<open>_mm_add_epi16\<close> and \<^verbatim>\<open>_mm_add_epi32\<close> add lane by lane and wrap around.\<close>

definition mm_add_epi16 :: "m128i \<Rightarrow> m128i \<Rightarrow> m128i" where
  "mm_add_epi16 a b = of_lanes16 (map2 (+) (lanes16 a) (lanes16 b))"

definition mm_add_epi32 :: "m128i \<Rightarrow> m128i \<Rightarrow> m128i" where
  "mm_add_epi32 a b = of_lanes32 (map2 (+) (lanes32 a) (lanes32 b))"

text \<open>\<^verbatim>\<open>_mm_andnot_si128(a, b)\<close> is \<open>(NOT a) AND b\<close>.\<close>

definition mm_andnot_si128 :: "m128i \<Rightarrow> m128i \<Rightarrow> m128i" where
  "mm_andnot_si128 a b = map2 (\<lambda>x y. NOT x AND y) a b"

text \<open>
  \<^verbatim>\<open>_mm_packs_epi32\<close> narrows signed 32-bit lanes to signed 16-bit lanes with signed
  saturation; \<^verbatim>\<open>_mm_packus_epi16\<close> narrows signed 16-bit lanes to bytes with unsigned
  saturation. The lanes of the first operand come first.
\<close>

definition saturate_s16 :: "u32 \<Rightarrow> u16" where
  "saturate_s16 w =
     (if sint w > 32767 then 32767 else if sint w < - 32768 then - 32768 else ucast w)"

definition saturate_u8 :: "u16 \<Rightarrow> u8" where
  "saturate_u8 w = (if sint w > 255 then 255 else if sint w < 0 then 0 else ucast w)"

definition mm_packs_epi32 :: "m128i \<Rightarrow> m128i \<Rightarrow> m128i" where
  "mm_packs_epi32 a b = of_lanes16 (map saturate_s16 (lanes32 a @ lanes32 b))"

definition mm_packus_epi16 :: "m128i \<Rightarrow> m128i \<Rightarrow> m128i" where
  "mm_packus_epi16 a b = map saturate_u8 (lanes16 a @ lanes16 b)"

definition mm_cvtsi128_si32 :: "m128i \<Rightarrow> u32" where
  "mm_cvtsi128_si32 a = (case lanes32 a of w # _ \<Rightarrow> w | [] \<Rightarrow> 0)"

subsection \<open>Floating point\<close>

text \<open>
  The operations of single precision the file uses. \<open>f_of_int\<close> is the conversion of an
  integer to \<^verbatim>\<open>float\<close> (the C cast, and \<^verbatim>\<open>CVTDQ2PS\<close> on one lane), \<open>f_to_int32\<close> is
  \<^verbatim>\<open>CVTPS2DQ\<close> on one lane (conversion to a signed 32-bit integer in the current rounding
  mode).
\<close>

record 'f fpu =
  f_of_int :: "int \<Rightarrow> 'f"
  f_to_int32 :: "'f \<Rightarrow> u32"
  f_add :: "'f \<Rightarrow> 'f \<Rightarrow> 'f"
  f_mul :: "'f \<Rightarrow> 'f \<Rightarrow> 'f"
  f_div :: "'f \<Rightarrow> 'f \<Rightarrow> 'f"
  f_neg :: "'f \<Rightarrow> 'f"

text \<open>
  What the kernel preparation takes from \<^verbatim>\<open>math.h\<close> and from double precision: the
  functions \<^verbatim>\<open>sqrtf\<close> and \<^verbatim>\<open>expf\<close>, the constant \<^verbatim>\<open>M_PI\<close>, the conversions between
  \<^verbatim>\<open>float\<close> and \<^verbatim>\<open>double\<close>, and the product and quotient of two doubles.
\<close>

record ('f, 'd) cmath =
  sqrtf :: "'f \<Rightarrow> 'f"
  expf :: "'f \<Rightarrow> 'f"
  M_PI :: "'d"
  d_of_int :: "int \<Rightarrow> 'd"
  d_of_f :: "'f \<Rightarrow> 'd"
  f_of_d :: "'d \<Rightarrow> 'f"
  d_mul :: "'d \<Rightarrow> 'd \<Rightarrow> 'd"
  d_div :: "'d \<Rightarrow> 'd \<Rightarrow> 'd"

text \<open>An \<^verbatim>\<open>__m128\<close> is the list of its 4 lanes, an \<^verbatim>\<open>__m256\<close> the list of its 8 lanes.\<close>

definition mm_set1_ps :: "'f \<Rightarrow> 'f list" where
  "mm_set1_ps x = replicate 4 x"

definition mm_cvtepi32_ps :: "'f fpu \<Rightarrow> m128i \<Rightarrow> 'f list" where
  "mm_cvtepi32_ps F a = map (\<lambda>w. f_of_int F (sint w)) (lanes32 a)"

definition mm_cvtps_epi32 :: "'f fpu \<Rightarrow> 'f list \<Rightarrow> m128i" where
  "mm_cvtps_epi32 F v = of_lanes32 (map (f_to_int32 F) v)"

definition mm_mul_ps :: "'f fpu \<Rightarrow> 'f list \<Rightarrow> 'f list \<Rightarrow> 'f list" where
  "mm_mul_ps F a b = map2 (f_mul F) a b"

definition mm_add_ps :: "'f fpu \<Rightarrow> 'f list \<Rightarrow> 'f list \<Rightarrow> 'f list" where
  "mm_add_ps F a b = map2 (f_add F) a b"

text \<open>
  The macros of the file: \<^verbatim>\<open>_mm256_setr_m128(v0, v1)\<close> is \<^verbatim>\<open>_mm256_set_m128(v1, v0)\<close>,
  which inserts its first argument as the upper half over its second; so \<open>v0\<close> is the lower
  half. The same for \<^verbatim>\<open>_mm256_setr_m128i\<close>.
\<close>

definition mm256_setr_m128 :: "'f list \<Rightarrow> 'f list \<Rightarrow> 'f list" where
  "mm256_setr_m128 v0 v1 = v0 @ v1"

definition mm256_setr_m128i :: "m128i \<Rightarrow> m128i \<Rightarrow> u8 list" where
  "mm256_setr_m128i v0 v1 = v0 @ v1"

definition mm256_setzero_ps :: "'f fpu \<Rightarrow> 'f list" where
  "mm256_setzero_ps F = replicate 8 (f_of_int F 0)"

definition mm256_cvtepi32_ps :: "'f fpu \<Rightarrow> u8 list \<Rightarrow> 'f list" where
  "mm256_cvtepi32_ps F a = map (\<lambda>w. f_of_int F (sint w)) (lanes32 a)"

definition mm256_mul_ps :: "'f fpu \<Rightarrow> 'f list \<Rightarrow> 'f list \<Rightarrow> 'f list" where
  "mm256_mul_ps F a b = map2 (f_mul F) a b"

definition mm256_add_ps :: "'f fpu \<Rightarrow> 'f list \<Rightarrow> 'f list \<Rightarrow> 'f list" where
  "mm256_add_ps F a b = map2 (f_add F) a b"

definition mm256_extractf128_ps :: "'f list \<Rightarrow> int \<Rightarrow> 'f list" where
  "mm256_extractf128_ps a imm = (if imm = 0 then take 4 a else drop 4 a)"

section \<open>Kernel preparation\<close>

text \<open>
  The first loop of \<^verbatim>\<open>blur_impl_sse2\<close> and \<^verbatim>\<open>blur_impl_avx\<close> (the two are the same
  text):
  \<^verbatim>\<open>float x = HALF_KERNEL - i; kernel[i] = coeff * expf(-x * x / (2.0 * sigma * sigma)); sum += kernel[i];\<close>
  The subtraction is an integer one, converted to \<^verbatim>\<open>float\<close>; \<^verbatim>\<open>-x * x\<close> is a product of
  floats; the quotient is taken in double precision and converted for \<^verbatim>\<open>expf\<close>.
\<close>

function kernel_fill ::
  "'f fpu \<Rightarrow> ('f, 'd) cmath \<Rightarrow> 'f \<Rightarrow> 'f \<Rightarrow> int \<Rightarrow> 'f list \<times> 'f \<Rightarrow> error + ('f list \<times> 'f)" where
  "kernel_fill F L sigma coeff i (kern, sum_k) =
     (if i < KERNEL_SIZE then
        let x = f_of_int F (HALF_KERNEL - i);
            v = f_mul F coeff
                  (expf L (f_of_d L
                    (d_div L (d_of_f L (f_mul F (f_neg F x) x))
                             (d_mul L (d_mul L (d_of_int L 2) (d_of_f L sigma)) (d_of_f L sigma)))))
        in rbind (array_set ''kernel'' kern i v)
             (\<lambda>kern'. kernel_fill F L sigma coeff (i + 1) (kern', f_add F sum_k v))
      else Inr (kern, sum_k))"
  by pat_completeness auto
termination
  by (relation "measure (\<lambda>(F, L, sigma, coeff, i, s). nat (KERNEL_SIZE - i))") auto

text \<open>The second loop: \<^verbatim>\<open>kernel[i] /= sum\<close>.\<close>

function kernel_normalize :: "'f fpu \<Rightarrow> 'f \<Rightarrow> int \<Rightarrow> 'f list \<Rightarrow> error + 'f list" where
  "kernel_normalize F sum_k i kern =
     (if i < KERNEL_SIZE then
        rbind (array_get ''kernel'' kern i) (\<lambda>v.
        rbind (array_set ''kernel'' kern i (f_div F v sum_k)) (\<lambda>kern'.
        kernel_normalize F sum_k (i + 1) kern'))
      else Inr kern)"
  by pat_completeness auto
termination
  by (relation "measure (\<lambda>(F, sum_k, i, kern). nat (KERNEL_SIZE - i))") auto

text \<open>
  \<^verbatim>\<open>float kernel[KERNEL_SIZE]; float coeff = 1.0 / sqrtf(2 * M_PI * sigma * sigma), sum = 0;\<close>
  followed by the two loops (\<open>kern\<close> and \<open>sum_k\<close> are the variables \<^verbatim>\<open>kernel\<close> and \<^verbatim>\<open>sum\<close>). The array is not initialised in C; the first loop writes each
  of its 7 elements before anything reads it, so the initial content chosen here (zeros)
  is never seen.
\<close>

definition prepare_kernel :: "'f fpu \<Rightarrow> ('f, 'd) cmath \<Rightarrow> 'f \<Rightarrow> error + 'f list" where
  "prepare_kernel F L sigma =
     (let coeff = f_of_d L (d_div L (d_of_int L 1)
                    (d_of_f L (sqrtf L (f_of_d L
                      (d_mul L (d_mul L (d_mul L (d_of_int L 2) (M_PI L)) (d_of_f L sigma))
                               (d_of_f L sigma))))));
          sum_k = f_of_int F 0
      in rbind (kernel_fill F L sigma coeff 0 (replicate (nat KERNEL_SIZE) (f_of_int F 0), sum_k))
           (\<lambda>(kern, sum_k'). kernel_normalize F sum_k' 0 kern))"

section \<open>The window of a pixel\<close>

text \<open>
  Both passes start the body of their inner loop with the same text (lines 55 to 85 and
  140 to 170 of the file): the pixels around the current one are brought into the registers
  \<^verbatim>\<open>rgbaIn[0]\<close> and \<^verbatim>\<open>rgbaIn[1]\<close>. Here \<open>src\<close> is the buffer and \<open>p\<close> the offset of the
  pointer \<^verbatim>\<open>src\<close> of the C code, which the inner loop advances by one pixel per column
  and never resets; \<open>px\<close> is the local array \<^verbatim>\<open>_rgbaIn\<close> of 7 pixels.
\<close>

text \<open>\<^verbatim>\<open>for (; i < HALF_KERNEL - column; i++) _rgbaIn[i] = *(src + (HALF_KERNEL - i));\<close>\<close>

function left_mirror ::
  "u32 list \<Rightarrow> int \<Rightarrow> int \<Rightarrow> int \<Rightarrow> u32 list \<Rightarrow> error + (int \<times> u32 list)" where
  "left_mirror src p column i px =
     (if i < HALF_KERNEL - column then
        rbind (load_u32 src (p + (HALF_KERNEL - i))) (\<lambda>v.
        rbind (array_set ''_rgbaIn'' px i v) (\<lambda>px'.
        left_mirror src p column (i + 1) px'))
      else Inr (i, px))"
  by pat_completeness auto
termination
  by (relation "measure (\<lambda>(src, p, column, i, px). nat (HALF_KERNEL - column - i))") auto

text \<open>\<^verbatim>\<open>for (; i < KERNEL_SIZE; i++) _rgbaIn[i] = *(src - (HALF_KERNEL - i));\<close>\<close>

function left_load :: "u32 list \<Rightarrow> int \<Rightarrow> int \<Rightarrow> u32 list \<Rightarrow> error + (int \<times> u32 list)" where
  "left_load src p i px =
     (if i < KERNEL_SIZE then
        rbind (load_u32 src (p - (HALF_KERNEL - i))) (\<lambda>v.
        rbind (array_set ''_rgbaIn'' px i v) (\<lambda>px'.
        left_load src p (i + 1) px'))
      else Inr (i, px))"
  by pat_completeness auto
termination
  by (relation "measure (\<lambda>(src, p, i, px). nat (KERNEL_SIZE - i))") auto

text \<open>\<^verbatim>\<open>for (; i < width - column; i++) _rgbaIn[i] = *(src + i);\<close>\<close>

function right_load ::
  "u32 list \<Rightarrow> int \<Rightarrow> int \<Rightarrow> int \<Rightarrow> int \<Rightarrow> u32 list \<Rightarrow> error + (int \<times> u32 list)" where
  "right_load src p width column i px =
     (if i < width - column then
        rbind (load_u32 src (p + i)) (\<lambda>v.
        rbind (array_set ''_rgbaIn'' px i v) (\<lambda>px'.
        right_load src p width column (i + 1) px'))
      else Inr (i, px))"
  by pat_completeness auto
termination
  by (relation "measure (\<lambda>(src, p, width, column, i, px). nat (width - column - i))") auto

text \<open>\<^verbatim>\<open>for (int k = 0; i < KERNEL_SIZE; i++, k++) _rgbaIn[i] = *(src - k);\<close>\<close>

function right_mirror ::
  "u32 list \<Rightarrow> int \<Rightarrow> int \<Rightarrow> int \<Rightarrow> u32 list \<Rightarrow> error + (int \<times> u32 list)" where
  "right_mirror src p i k px =
     (if i < KERNEL_SIZE then
        rbind (load_u32 src (p - k)) (\<lambda>v.
        rbind (array_set ''_rgbaIn'' px i v) (\<lambda>px'.
        right_mirror src p (i + 1) (k + 1) px'))
      else Inr (i, px))"
  by pat_completeness auto
termination
  by (relation "measure (\<lambda>(src, p, i, k, px). nat (KERNEL_SIZE - i))") auto

text \<open>
  \<^verbatim>\<open>_mm_load_si128((__m128i*)(_rgbaIn + 4*k))\<close> reads 16 bytes. For \<open>k = 1\<close> these are the
  pixels 4, 5 and 6 of the array and the 4 bytes that follow it, which belong to no element
  (the array has 7). The file says so (``we can only load multiples of 4 pixels, we have to
  set 8th pixel to zero''). What these 4 bytes hold is not determined by the program: it is
  the parameter \<open>u\<close>, and the same \<open>u\<close> stands for the content of the array before it is
  written.

  \<^verbatim>\<open>_mm_loadu_si128((__m128i*)(src + 4*k - HALF_KERNEL))\<close> reads 4 pixels of the buffer.
\<close>

definition mm_load_si128_local :: "u32 \<Rightarrow> u32 list \<Rightarrow> int \<Rightarrow> m128i" where
  "mm_load_si128_local u a off =
     of_lanes32 (map (\<lambda>j. if off + j < int (length a) then a ! nat (off + j) else u) [0..3])"

definition mm_loadu_si128 :: "u32 list \<Rightarrow> int \<Rightarrow> error + m128i" where
  "mm_loadu_si128 buf i = rbind (mapM (\<lambda>j. load_u32 buf (i + j)) [0..3]) (\<lambda>ps. Inr (of_lanes32 ps))"

definition gather_window :: "u32 \<Rightarrow> u32 list \<Rightarrow> int \<Rightarrow> int \<Rightarrow> int \<Rightarrow> error + m128i list" where
  "gather_window u src p width column =
     (let leftBorder = column < HALF_KERNEL;
          rightBorder = column > width - HALF_KERNEL;
          px = replicate (nat KERNEL_SIZE) u;
          i = 0
      in if leftBorder then
           rbind (left_mirror src p column i px) (\<lambda>(i, px).
           rbind (left_load src p i px) (\<lambda>(i, px).
           Inr (map (\<lambda>k. mm_load_si128_local u px (4 * k)) [0..REGISTERS_CNT - 1])))
         else if rightBorder then
           rbind (right_load src p width column i px) (\<lambda>(i, px).
           rbind (right_mirror src p i 0 px) (\<lambda>(i, px).
           Inr (map (\<lambda>k. mm_load_si128_local u px (4 * k)) [0..REGISTERS_CNT - 1])))
         else
           mapM (\<lambda>k. mm_loadu_si128 src (p + 4 * k - HALF_KERNEL)) [0..REGISTERS_CNT - 1])"

text \<open>The 7 pixels of the window, in the order of the lanes of the two registers.\<close>

definition window :: "m128i list \<Rightarrow> u32 list" where
  "window rgbaIn = take (nat KERNEL_SIZE) (concat (map lanes32 rgbaIn))"

section \<open>The SSE2 back end\<close>

text \<open>
  The arithmetic of one output pixel (lines 87 to 105), in the four stages of the C text:
  the sum in 16-bit lanes, the sum in 32-bit lanes, the scaling in floating point, and the
  packing. \<open>r0\<close> and \<open>r1\<close> are \<^verbatim>\<open>rgbaIn[0]\<close> and \<^verbatim>\<open>rgbaIn[1]\<close>.
\<close>

definition sse2_acc16 :: "m128i \<Rightarrow> m128i \<Rightarrow> m128i" where
  "sse2_acc16 r0 r1 =
     (let zero = mm_setzero_si128;
          acc = mm_setzero_si128;
          acc = mm_add_epi16 acc (mm_unpacklo_epi8 r0 zero);
          acc = mm_add_epi16 acc (mm_unpackhi_epi8 r0 zero);
          acc = mm_add_epi16 acc (mm_unpacklo_epi8 r1 zero);
          acc = mm_add_epi16 acc
                  (mm_andnot_si128 (mm_set_epi32 0xFFFFFFFF 0xFFFFFFFF 0 0)
                                   (mm_unpackhi_epi8 r1 zero))
      in acc)"

definition sse2_acc32 :: "m128i \<Rightarrow> m128i" where
  "sse2_acc32 acc =
     (let zero = mm_setzero_si128
      in mm_add_epi32 (mm_unpacklo_epi16 acc zero) (mm_unpackhi_epi16 acc zero))"

definition sse2_scale :: "'f fpu \<Rightarrow> m128i \<Rightarrow> m128i" where
  "sse2_scale F acc =
     mm_cvtps_epi32 F (mm_mul_ps F (mm_cvtepi32_ps F acc)
                         (mm_set1_ps (f_div F (f_of_int F 1) (f_of_int F KERNEL_SIZE))))"

definition sse2_pack :: "m128i \<Rightarrow> u32" where
  "sse2_pack acc =
     (let zero = mm_setzero_si128
      in mm_cvtsi128_si32 (mm_packus_epi16 (mm_packs_epi32 acc zero) zero))"

definition sse2_pixel :: "'f fpu \<Rightarrow> m128i list \<Rightarrow> error + u32" where
  "sse2_pixel F rgbaIn =
     rbind (array_get ''rgbaIn'' rgbaIn 0) (\<lambda>r0.
     rbind (array_get ''rgbaIn'' rgbaIn 1) (\<lambda>r1.
     Inr (sse2_pack (sse2_scale F (sse2_acc32 (sse2_acc16 r0 r1))))))"

text \<open>The body of the inner loop, for one \<open>row\<close> and \<open>column\<close>.\<close>

definition sse2_step ::
  "'f fpu \<Rightarrow> u32 \<Rightarrow> u32 list \<Rightarrow> int \<Rightarrow> u32 list \<Rightarrow> int \<Rightarrow> int \<Rightarrow> int \<Rightarrow> int \<Rightarrow> error + u32 list" where
  "sse2_step F u src p dst width height row column =
     rbind (gather_window u src p width column) (\<lambda>rgbaIn.
     rbind (sse2_pixel F rgbaIn) (\<lambda>px.
     store_u32 dst (height * column + row) px))"

text \<open>\<^verbatim>\<open>for (int column = 0; column < width; column++, src++)\<close>\<close>

function sse2_columns ::
  "'f fpu \<Rightarrow> u32 \<Rightarrow> u32 list \<Rightarrow> int \<Rightarrow> int \<Rightarrow> int \<Rightarrow> int \<Rightarrow> int \<times> u32 list
     \<Rightarrow> error + (int \<times> u32 list)" where
  "sse2_columns F u src width height row column (p, dst) =
     (if column < width then
        rbind (sse2_step F u src p dst width height row column) (\<lambda>dst'.
        sse2_columns F u src width height row (column + 1) (p + 1, dst'))
      else Inr (p, dst))"
  by pat_completeness auto
termination
  by (relation "measure (\<lambda>(F, u, src, width, height, row, column, s). nat (width - column))") auto

text \<open>\<^verbatim>\<open>for (int row = 0; row < height; row++)\<close>\<close>

function sse2_rows ::
  "'f fpu \<Rightarrow> u32 \<Rightarrow> u32 list \<Rightarrow> int \<Rightarrow> int \<Rightarrow> int \<Rightarrow> int \<times> u32 list
     \<Rightarrow> error + (int \<times> u32 list)" where
  "sse2_rows F u src width height row (p, dst) =
     (if row < height then
        rbind (sse2_columns F u src width height row 0 (p, dst)) (\<lambda>s.
        sse2_rows F u src width height (row + 1) s)
      else Inr (p, dst))"
  by pat_completeness auto
termination
  by (relation "measure (\<lambda>(F, u, src, width, height, row, s). nat (height - row))") auto

text \<open>
  \<^verbatim>\<open>blur_impl_horizontal_pass_sse2(src, dst, kernel, width, height)\<close>. The result is the
  destination buffer after the pass. The parameter \<^verbatim>\<open>kernel\<close> is not mentioned in the body
  of the C function.
\<close>

definition blur_impl_horizontal_pass_sse2 ::
  "'f fpu \<Rightarrow> u32 \<Rightarrow> u32 list \<Rightarrow> u32 list \<Rightarrow> 'f list \<Rightarrow> int \<Rightarrow> int \<Rightarrow> error + u32 list" where
  "blur_impl_horizontal_pass_sse2 F u src dst kern width height =
     rbind (sse2_rows F u src width height 0 (0, dst)) (\<lambda>(p, dst'). Inr dst')"

text \<open>
  \<^verbatim>\<open>blur_impl_sse2(src, dst, width, height, sigma)\<close>. The result is the pair of the two
  buffers after the call, \<^verbatim>\<open>src\<close> first.
\<close>

definition blur_impl_sse2 ::
  "'f fpu \<Rightarrow> ('f, 'd) cmath \<Rightarrow> u32 \<Rightarrow> u32 list \<Rightarrow> u32 list \<Rightarrow> int \<Rightarrow> int \<Rightarrow> 'f
     \<Rightarrow> error + (u32 list \<times> u32 list)" where
  "blur_impl_sse2 F L u src dst width height sigma =
     rbind (prepare_kernel F L sigma) (\<lambda>kern.
     rbind (blur_impl_horizontal_pass_sse2 F u src dst kern width height) (\<lambda>dst'.
     rbind (blur_impl_horizontal_pass_sse2 F u dst' src kern height width) (\<lambda>src'.
     Inr (src', dst'))))"

section \<open>The AVX back end\<close>

text \<open>
  \<^verbatim>\<open>__m256 kernels[HALF_KERNEL];\<close>
  \<^verbatim>\<open>for (int i = 0, k = 0; i < HALF_KERNEL; i++, k += 2)\<close>
  \<^verbatim>\<open>    kernels[i] = _mm256_setr_m128(_mm_set1_ps(kernel[k]), _mm_set1_ps(kernel[k+1]));\<close>
\<close>

function avx_kernels ::
  "'f list \<Rightarrow> int \<Rightarrow> int \<Rightarrow> 'f list list \<Rightarrow> error + 'f list list" where
  "avx_kernels kern i k kernels =
     (if i < HALF_KERNEL then
        rbind (array_get ''kernel'' kern k) (\<lambda>c0.
        rbind (array_get ''kernel'' kern (k + 1)) (\<lambda>c1.
        rbind (array_set ''kernels'' kernels i (mm256_setr_m128 (mm_set1_ps c0) (mm_set1_ps c1)))
          (\<lambda>kernels'. avx_kernels kern (i + 1) (k + 2) kernels')))
      else Inr kernels)"
  by pat_completeness auto
termination
  by (relation "measure (\<lambda>(kern, i, k, kernels). nat (HALF_KERNEL - i))") auto

text \<open>
  One half of a register, unpacked, converted and added to the accumulator with its weights:
  \<^verbatim>\<open>rgba_ps = _mm256_cvtepi32_ps(_mm256_setr_m128i(_mm_unpacklo_epi16(tmp, zero),\<close>
  \<^verbatim>\<open>                                               _mm_unpackhi_epi16(tmp, zero)));\<close>
  \<^verbatim>\<open>acc = _mm256_add_ps(acc, _mm256_mul_ps(rgba_ps, kernels[counter]));\<close>
\<close>

definition avx_mul_add ::
  "'f fpu \<Rightarrow> 'f list list \<Rightarrow> m128i \<Rightarrow> int \<Rightarrow> 'f list \<Rightarrow> error + 'f list" where
  "avx_mul_add F kernels tmp counter acc =
     (let zero = mm_setzero_si128;
          rgba_ps = mm256_cvtepi32_ps F
                      (mm256_setr_m128i (mm_unpacklo_epi16 tmp zero) (mm_unpackhi_epi16 tmp zero))
      in rbind (array_get ''kernels'' kernels counter) (\<lambda>kv.
         Inr (mm256_add_ps F acc (mm256_mul_ps F rgba_ps kv))))"

text \<open>
  \<^verbatim>\<open>for (int i = 0; i < 3; i++)\<close> with its two steps, each of which uses
  \<^verbatim>\<open>kernels[counter++]\<close>.
\<close>

function avx_accumulate ::
  "'f fpu \<Rightarrow> m128i list \<Rightarrow> 'f list list \<Rightarrow> int \<Rightarrow> 'f list \<times> int \<Rightarrow> error + ('f list \<times> int)" where
  "avx_accumulate F rgbaIn kernels i (acc, counter) =
     (if i < 3 then
        rbind (array_get ''rgbaIn'' rgbaIn i) (\<lambda>r.
        rbind (avx_mul_add F kernels (mm_unpacklo_epi8 r mm_setzero_si128) counter acc) (\<lambda>acc1.
        rbind (array_get ''rgbaIn'' rgbaIn i) (\<lambda>r'.
        rbind (avx_mul_add F kernels (mm_unpackhi_epi8 r' mm_setzero_si128) (counter + 1) acc1) (\<lambda>acc2.
        avx_accumulate F rgbaIn kernels (i + 1) (acc2, counter + 2)))))
      else Inr (acc, counter))"
  by pat_completeness auto
termination
  by (relation "measure (\<lambda>(F, rgbaIn, kernels, i, s). nat (3 - i))") auto

text \<open>
  The arithmetic of one output pixel (lines 175 to 207): the loop, the step for the lower
  half of \<^verbatim>\<open>rgbaIn[3]\<close> with \<^verbatim>\<open>kernels[counter]\<close>, the step for one more pixel with
  \<^verbatim>\<open>kernel[KERNEL_SIZE-1]\<close>, the sum of the two halves of the accumulator, and the packing.
\<close>

definition avx_pixel :: "'f fpu \<Rightarrow> 'f list \<Rightarrow> 'f list list \<Rightarrow> m128i list \<Rightarrow> error + u32" where
  "avx_pixel F kern kernels rgbaIn =
     (let zero = mm_setzero_si128;
          acc = mm256_setzero_ps F;
          counter = 0
      in rbind (avx_accumulate F rgbaIn kernels 0 (acc, counter)) (\<lambda>(acc, counter).
         rbind (array_get ''rgbaIn'' rgbaIn 3) (\<lambda>r.
         rbind (avx_mul_add F kernels (mm_unpacklo_epi8 r zero) counter acc) (\<lambda>acc.
         rbind (array_get ''rgbaIn'' rgbaIn 3) (\<lambda>r'.
         rbind (array_get ''kernel'' kern (KERNEL_SIZE - 1)) (\<lambda>c.
         let tmp = mm_unpackhi_epi8 r' zero;
             rgba_ps_128 = mm_cvtepi32_ps F (mm_unpacklo_epi16 tmp zero);
             rgba_ps_128 = mm_mul_ps F rgba_ps_128 (mm_set1_ps c);
             rgba_ps_128 = mm_add_ps F rgba_ps_128
                             (mm_add_ps F (mm256_extractf128_ps acc 0) (mm256_extractf128_ps acc 1));
             rgbaOut = mm_packs_epi32 (mm_cvtps_epi32 F rgba_ps_128) zero;
             rgbaOut = mm_packus_epi16 rgbaOut zero
         in Inr (mm_cvtsi128_si32 rgbaOut)))))))"

definition avx_step ::
  "'f fpu \<Rightarrow> u32 \<Rightarrow> 'f list \<Rightarrow> 'f list list \<Rightarrow> u32 list \<Rightarrow> int \<Rightarrow> u32 list \<Rightarrow> int \<Rightarrow> int \<Rightarrow> int \<Rightarrow> int
     \<Rightarrow> error + u32 list" where
  "avx_step F u kern kernels src p dst width height row column =
     rbind (gather_window u src p width column) (\<lambda>rgbaIn.
     rbind (avx_pixel F kern kernels rgbaIn) (\<lambda>px.
     store_u32 dst (height * column + row) px))"

function avx_columns ::
  "'f fpu \<Rightarrow> u32 \<Rightarrow> 'f list \<Rightarrow> 'f list list \<Rightarrow> u32 list \<Rightarrow> int \<Rightarrow> int \<Rightarrow> int \<Rightarrow> int
     \<Rightarrow> int \<times> u32 list \<Rightarrow> error + (int \<times> u32 list)" where
  "avx_columns F u kern kernels src width height row column (p, dst) =
     (if column < width then
        rbind (avx_step F u kern kernels src p dst width height row column) (\<lambda>dst'.
        avx_columns F u kern kernels src width height row (column + 1) (p + 1, dst'))
      else Inr (p, dst))"
  by pat_completeness auto
termination
  by (relation "measure (\<lambda>(F, u, kern, kernels, src, width, height, row, column, s).
                           nat (width - column))") auto

function avx_rows ::
  "'f fpu \<Rightarrow> u32 \<Rightarrow> 'f list \<Rightarrow> 'f list list \<Rightarrow> u32 list \<Rightarrow> int \<Rightarrow> int \<Rightarrow> int
     \<Rightarrow> int \<times> u32 list \<Rightarrow> error + (int \<times> u32 list)" where
  "avx_rows F u kern kernels src width height row (p, dst) =
     (if row < height then
        rbind (avx_columns F u kern kernels src width height row 0 (p, dst)) (\<lambda>s.
        avx_rows F u kern kernels src width height (row + 1) s)
      else Inr (p, dst))"
  by pat_completeness auto
termination
  by (relation "measure (\<lambda>(F, u, kern, kernels, src, width, height, row, s).
                           nat (height - row))") auto

text \<open>
  \<^verbatim>\<open>blur_impl_horizontal_pass_avx(src, dst, kernel, width, height)\<close>. The array
  \<^verbatim>\<open>kernels\<close> has \<^verbatim>\<open>HALF_KERNEL\<close> elements, not initialised in C; the loop writes each of
  them, so the initial content chosen here (empty vectors) is never seen.
\<close>

definition blur_impl_horizontal_pass_avx ::
  "'f fpu \<Rightarrow> u32 \<Rightarrow> u32 list \<Rightarrow> u32 list \<Rightarrow> 'f list \<Rightarrow> int \<Rightarrow> int \<Rightarrow> error + u32 list" where
  "blur_impl_horizontal_pass_avx F u src dst kern width height =
     rbind (avx_kernels kern 0 0 (replicate (nat HALF_KERNEL) [])) (\<lambda>kernels.
     rbind (avx_rows F u kern kernels src width height 0 (0, dst)) (\<lambda>(p, dst'). Inr dst'))"

definition blur_impl_avx ::
  "'f fpu \<Rightarrow> ('f, 'd) cmath \<Rightarrow> u32 \<Rightarrow> u32 list \<Rightarrow> u32 list \<Rightarrow> int \<Rightarrow> int \<Rightarrow> 'f
     \<Rightarrow> error + (u32 list \<times> u32 list)" where
  "blur_impl_avx F L u src dst width height sigma =
     rbind (prepare_kernel F L sigma) (\<lambda>kern.
     rbind (blur_impl_horizontal_pass_avx F u src dst kern width height) (\<lambda>dst'.
     rbind (blur_impl_horizontal_pass_avx F u dst' src kern height width) (\<lambda>src'.
     Inr (src', dst'))))"

section \<open>IEEE binary32 arithmetic\<close>

text \<open>
  A concrete \<open>fpu\<close>: the single precision format with round-to-nearest-even, the rounding
  mode a process starts with and which the file never changes. A finite number is a sign
  (\<open>True\<close> for negative), a mantissa \<open>m\<close> with \<open>0 \<le> m\<close> and \<open>m \<le> 2 ^ 24\<close>, and an exponent
  \<open>e\<close> with \<open>- 149 \<le> e\<close>; it stands for \<open>m * 2 ^ e\<close>.
\<close>

datatype binary32 = Finite bool int int | Infinity bool | NaN

text \<open>
  \<open>rne_shift m k sticky\<close> is \<open>m / 2 ^ k\<close> rounded to the nearest integer, ties to even, for
  \<open>0 \<le> m\<close>; \<open>sticky\<close> says that the exact number is slightly above \<open>m\<close> (a remainder was
  dropped before).
\<close>

definition rne_shift :: "int \<Rightarrow> nat \<Rightarrow> bool \<Rightarrow> int" where
  "rne_shift m k sticky =
     (if k = 0 then m
      else let q = m div 2 ^ k; r = m mod 2 ^ k; half = 2 ^ (k - 1)
           in if half < r \<or> (r = half \<and> (sticky \<or> odd q)) then q + 1 else q)"

text \<open>
  The number \<open>m * 2 ^ e\<close> (with sign \<open>s\<close>) rounded to binary32. The result is an infinity
  when the rounded number is \<open>2 ^ 128\<close> or more; a zero stays a zero whatever its exponent.
\<close>

definition round_binary32 :: "bool \<Rightarrow> int \<Rightarrow> int \<Rightarrow> bool \<Rightarrow> binary32" where
  "round_binary32 s m e sticky =
     (let k = nat (max (bitlen m - 24) (- 149 - e));
          m' = rne_shift m k sticky;
          e' = e + int k
      in if m' \<noteq> 0 \<and> bitlen m' + e' > 128 then Infinity s else Finite s m' e')"

definition b32_of_int :: "int \<Rightarrow> binary32" where
  "b32_of_int i = round_binary32 (i < 0) \<bar>i\<bar> 0 False"

fun b32_neg :: "binary32 \<Rightarrow> binary32" where
  "b32_neg (Finite s m e) = Finite (\<not> s) m e"
| "b32_neg (Infinity s) = Infinity (\<not> s)"
| "b32_neg NaN = NaN"

fun b32_mul :: "binary32 \<Rightarrow> binary32 \<Rightarrow> binary32" where
  "b32_mul (Finite s1 m1 e1) (Finite s2 m2 e2) =
     round_binary32 (s1 \<noteq> s2) (m1 * m2) (e1 + e2) False"
| "b32_mul (Finite s1 m1 e1) (Infinity s2) = (if m1 = 0 then NaN else Infinity (s1 \<noteq> s2))"
| "b32_mul (Infinity s1) (Finite s2 m2 e2) = (if m2 = 0 then NaN else Infinity (s1 \<noteq> s2))"
| "b32_mul (Infinity s1) (Infinity s2) = Infinity (s1 \<noteq> s2)"
| "b32_mul _ _ = NaN"

fun b32_add :: "binary32 \<Rightarrow> binary32 \<Rightarrow> binary32" where
  "b32_add (Finite s1 m1 e1) (Finite s2 m2 e2) =
     (let e = min e1 e2;
          v = (if s1 then - 1 else 1) * m1 * 2 ^ nat (e1 - e)
            + (if s2 then - 1 else 1) * m2 * 2 ^ nat (e2 - e)
      in round_binary32 (if v = 0 then s1 \<and> s2 else v < 0) \<bar>v\<bar> e False)"
| "b32_add (Finite s1 m1 e1) (Infinity s2) = Infinity s2"
| "b32_add (Infinity s1) (Finite s2 m2 e2) = Infinity s1"
| "b32_add (Infinity s1) (Infinity s2) = (if s1 = s2 then Infinity s1 else NaN)"
| "b32_add _ _ = NaN"

text \<open>
  The quotient: the numerator is scaled by \<open>2 ^ 64\<close>, so that the integer quotient has
  more bits than the format keeps, and the remainder is the sticky bit.
\<close>

fun b32_div :: "binary32 \<Rightarrow> binary32 \<Rightarrow> binary32" where
  "b32_div (Finite s1 m1 e1) (Finite s2 m2 e2) =
     (if m2 = 0 then (if m1 = 0 then NaN else Infinity (s1 \<noteq> s2))
      else let n = m1 * 2 ^ 64
           in round_binary32 (s1 \<noteq> s2) (n div m2) (e1 - e2 - 64) (n mod m2 \<noteq> 0))"
| "b32_div (Finite s1 m1 e1) (Infinity s2) = Finite (s1 \<noteq> s2) 0 0"
| "b32_div (Infinity s1) (Finite s2 m2 e2) = Infinity (s1 \<noteq> s2)"
| "b32_div _ _ = NaN"

text \<open>
  \<^verbatim>\<open>CVTPS2DQ\<close>: the nearest integer, ties to even; the ``integer indefinite'' value
  \<open>0x80000000\<close> when the result does not fit a signed 32-bit integer or the operand is not
  a number.
\<close>

fun b32_to_int32 :: "binary32 \<Rightarrow> u32" where
  "b32_to_int32 (Finite s m e) =
     (let n = (if 0 \<le> e then m * 2 ^ nat e else rne_shift m (nat (- e)) False);
          v = (if s then - n else n)
      in if - 2147483648 \<le> v \<and> v \<le> 2147483647 then word_of_int v else 0x80000000)"
| "b32_to_int32 _ = 0x80000000"

definition binary32_fpu :: "binary32 fpu" where
  "binary32_fpu =
     \<lparr> f_of_int = b32_of_int, f_to_int32 = b32_to_int32, f_add = b32_add,
       f_mul = b32_mul, f_div = b32_div, f_neg = b32_neg \<rparr>"

section \<open>IEEE binary64 arithmetic and \<^verbatim>\<open>math.h\<close>\<close>

text \<open>
  A concrete \<open>cmath\<close>, for the kernel preparation. A \<^verbatim>\<open>double\<close> is a binary64 number,
  built like a binary32 one with 53 bits of mantissa and exponents from \<open>- 1074\<close>; the
  product and the quotient round to nearest, ties to even. The conversion of a \<^verbatim>\<open>float\<close>
  to \<^verbatim>\<open>double\<close> is exact, the conversion back rounds.
\<close>

datatype binary64 = Finite64 bool int int | Infinity64 bool | NaN64

definition round_binary64 :: "bool \<Rightarrow> int \<Rightarrow> int \<Rightarrow> bool \<Rightarrow> binary64" where
  "round_binary64 s m e sticky =
     (let k = nat (max (bitlen m - 53) (- 1074 - e));
          m' = rne_shift m k sticky;
          e' = e + int k
      in if m' \<noteq> 0 \<and> bitlen m' + e' > 1024 then Infinity64 s else Finite64 s m' e')"

definition b64_of_int :: "int \<Rightarrow> binary64" where
  "b64_of_int i = round_binary64 (i < 0) \<bar>i\<bar> 0 False"

fun b64_of_b32 :: "binary32 \<Rightarrow> binary64" where
  "b64_of_b32 (Finite s m e) = Finite64 s m e"
| "b64_of_b32 (Infinity s) = Infinity64 s"
| "b64_of_b32 NaN = NaN64"

fun b32_of_b64 :: "binary64 \<Rightarrow> binary32" where
  "b32_of_b64 (Finite64 s m e) = round_binary32 s m e False"
| "b32_of_b64 (Infinity64 s) = Infinity s"
| "b32_of_b64 NaN64 = NaN"

fun b64_mul :: "binary64 \<Rightarrow> binary64 \<Rightarrow> binary64" where
  "b64_mul (Finite64 s1 m1 e1) (Finite64 s2 m2 e2) =
     round_binary64 (s1 \<noteq> s2) (m1 * m2) (e1 + e2) False"
| "b64_mul (Finite64 s1 m1 e1) (Infinity64 s2) = (if m1 = 0 then NaN64 else Infinity64 (s1 \<noteq> s2))"
| "b64_mul (Infinity64 s1) (Finite64 s2 m2 e2) = (if m2 = 0 then NaN64 else Infinity64 (s1 \<noteq> s2))"
| "b64_mul (Infinity64 s1) (Infinity64 s2) = Infinity64 (s1 \<noteq> s2)"
| "b64_mul _ _ = NaN64"

fun b64_div :: "binary64 \<Rightarrow> binary64 \<Rightarrow> binary64" where
  "b64_div (Finite64 s1 m1 e1) (Finite64 s2 m2 e2) =
     (if m2 = 0 then (if m1 = 0 then NaN64 else Infinity64 (s1 \<noteq> s2))
      else let n = m1 * 2 ^ 128
           in round_binary64 (s1 \<noteq> s2) (n div m2) (e1 - e2 - 128) (n mod m2 \<noteq> 0))"
| "b64_div (Finite64 s1 m1 e1) (Infinity64 s2) = Finite64 (s1 \<noteq> s2) 0 0"
| "b64_div (Infinity64 s1) (Finite64 s2 m2 e2) = Infinity64 (s1 \<noteq> s2)"
| "b64_div _ _ = NaN64"

text \<open>
  \<^verbatim>\<open>sqrtf\<close> and \<^verbatim>\<open>expf\<close> at the arguments where C (Annex F) fixes their results:
  \<^verbatim>\<open>sqrtf\<close> returns a zero and \<open>+\<infinity>\<close> unchanged and is not a number below zero;
  \<^verbatim>\<open>expf\<close> is 1 at a zero, \<open>+0\<close> at \<open>-\<infinity>\<close> and \<open>+\<infinity>\<close> at \<open>+\<infinity>\<close>; both return
  a NaN for a NaN. At every other argument the result is that of the library, which is the
  parameter \<open>sq\<close> or \<open>ex\<close>.
\<close>

fun sqrtf_special :: "(binary32 \<Rightarrow> binary32) \<Rightarrow> binary32 \<Rightarrow> binary32" where
  "sqrtf_special sq (Finite s m e) =
     (if m = 0 then Finite s m e else if s then NaN else sq (Finite s m e))"
| "sqrtf_special sq (Infinity s) = (if s then NaN else Infinity s)"
| "sqrtf_special sq NaN = NaN"

fun expf_special :: "(binary32 \<Rightarrow> binary32) \<Rightarrow> binary32 \<Rightarrow> binary32" where
  "expf_special ex (Finite s m e) = (if m = 0 then Finite False 1 0 else ex (Finite s m e))"
| "expf_special ex (Infinity s) = (if s then Finite False 0 0 else Infinity s)"
| "expf_special ex NaN = NaN"

text \<open>\<^verbatim>\<open>M_PI\<close> is the double nearest to \<open>\<pi>\<close>, \<^verbatim>\<open>0x400921FB54442D18\<close>.\<close>

definition libm ::
  "(binary32 \<Rightarrow> binary32) \<Rightarrow> (binary32 \<Rightarrow> binary32) \<Rightarrow> (binary32, binary64) cmath" where
  "libm sq ex =
     \<lparr> sqrtf = sqrtf_special sq, expf = expf_special ex,
       M_PI = Finite64 False 884279719003555 (- 48),
       d_of_int = b64_of_int, d_of_f = b64_of_b32, f_of_d = b32_of_b64,
       d_mul = b64_mul, d_div = b64_div \<rparr>"

text \<open>
  The comparison \<^verbatim>\<open>==\<close> of two floats: by value, so that the two zeros are equal, and a
  NaN is equal to nothing, not even to itself.
\<close>

fun b32_eq :: "binary32 \<Rightarrow> binary32 \<Rightarrow> bool" where
  "b32_eq (Finite s1 m1 e1) (Finite s2 m2 e2) =
     (let e = min e1 e2
      in (if s1 then - 1 else 1) * m1 * 2 ^ nat (e1 - e)
           = (if s2 then - 1 else 1) * m2 * 2 ^ nat (e2 - e))"
| "b32_eq (Infinity s1) (Infinity s2) = (s1 = s2)"
| "b32_eq _ _ = False"

text \<open>
  A library known at the four arguments the kernel preparation passes to it for
  \<^verbatim>\<open>sigma = 1\<close>: \<^verbatim>\<open>sqrtf\<close> at the float nearest to \<open>2\<pi>\<close>, and \<^verbatim>\<open>expf\<close> at \<open>- 4.5\<close>,
  \<open>- 2\<close> and \<open>- 0.5\<close>. The results are the floats nearest to the square root and to the
  exponentials. Elsewhere it returns a NaN.
\<close>

definition libm_at_sigma_1 :: "(binary32, binary64) cmath" where
  "libm_at_sigma_1 =
     libm (\<lambda>x. if b32_eq x (Finite False 13176795 (- 21)) then Finite False 10513561 (- 22) else NaN)
          (\<lambda>x. if b32_eq x (Finite True 9 (- 1)) then Finite False 5964097 (- 29)
               else if b32_eq x (Finite True 2 0) then Finite False 9082197 (- 26)
               else if b32_eq x (Finite True 1 (- 1)) then Finite False 1271987 (- 21)
               else NaN)"

section \<open>What a pass is to compute for one pixel\<close>

text \<open>
  The names in which the results below are stated. \<open>chan p k\<close> is channel \<open>k\<close> of the pixel
  \<open>p\<close> as a number, \<open>channel_sum ps k\<close> the sum of channel \<open>k\<close> over the pixels \<open>ps\<close>.
  \<open>clamp_u8\<close> reads a 32-bit lane as a signed integer and saturates it to \<open>0..255\<close>.
  \<open>box_channel\<close> is the box filter of one channel as the SSE2 pass does it in floating
  point: the sum is converted to \<^verbatim>\<open>float\<close>, multiplied by \<^verbatim>\<open>1/((float)KERNEL_SIZE)\<close>,
  converted back to an integer in the current rounding mode and saturated; \<open>box_pixel\<close>
  packs the four channels.
\<close>

definition chan :: "u32 \<Rightarrow> nat \<Rightarrow> nat" where "chan p k = unat (channel p k)"

definition clamp_u8 :: "u32 \<Rightarrow> u8" where
  "clamp_u8 w = (if 255 < sint w then 255 else if sint w < 0 then 0 else ucast w)"

definition channel_sum :: "u32 list \<Rightarrow> nat \<Rightarrow> int" where
  "channel_sum ps k = sum_list (map (\<lambda>p. uint (channel p k)) ps)"

definition box_channel :: "'f fpu \<Rightarrow> u32 list \<Rightarrow> nat \<Rightarrow> u8" where
  "box_channel F ps k =
     clamp_u8 (f_to_int32 F (f_mul F (f_of_int F (channel_sum ps k))
                                     (f_div F (f_of_int F 1) (f_of_int F KERNEL_SIZE))))"

definition box_pixel :: "'f fpu \<Rightarrow> u32 list \<Rightarrow> u32" where
  "box_pixel F ps =
     u32_of_bytes (box_channel F ps 0) (box_channel F ps 1) (box_channel F ps 2) (box_channel F ps 3)"

text \<open>
  \<open>sse2_output F u src width row column\<close> is the box filter of the window that
  \<open>gather_window\<close> reads for \<open>row\<close> and \<open>column\<close> of the image in \<open>src\<close> (0 where the window
  cannot be read).
\<close>

definition sse2_output :: "'f fpu \<Rightarrow> u32 \<Rightarrow> u32 list \<Rightarrow> int \<Rightarrow> int \<Rightarrow> int \<Rightarrow> u32" where
  "sse2_output F u src width row column =
     (case gather_window u src (row * width + column) width column of
        Inr rgbaIn \<Rightarrow> box_pixel F (window rgbaIn)
      | Inl e \<Rightarrow> 0)"

text \<open>
  \<open>scaled_ok s\<close>: in binary32, the sum \<open>s\<close> multiplied by the \<^verbatim>\<open>float\<close> nearest to one
  seventh and converted with \<^verbatim>\<open>CVTPS2DQ\<close> is the integer nearest to \<open>s / 7\<close>.
\<close>

definition scaled_ok :: "int \<Rightarrow> bool" where
  "scaled_ok s \<longleftrightarrow>
     b32_to_int32 (b32_mul (b32_of_int s) (Finite False 9586981 (- 26))) = word_of_int ((s + 3) div 7)"

text \<open>
  The right border as the specification words it: the pixels from the current column to the
  end of the row come first, and the remaining slots go ``backward from the last loaded
  pixel (the pixel at column \<open>width - 1\<close>)''. The sentence can be read with that pixel
  repeated (\<open>skip = 0\<close>) or not (\<open>skip = 1\<close>). \<open>row_px\<close> is one row of the image.
\<close>

definition mirror_from_last_pixel :: "int \<Rightarrow> u32 list \<Rightarrow> int \<Rightarrow> int \<Rightarrow> u32 list" where
  "mirror_from_last_pixel skip row_px width column =
     map (\<lambda>j. row_px ! nat (if j < width - column then column + j
                              else (width - 1) - skip - (j - (width - column))))
       [0..6]"

section \<open>What the kernel preparation is to compute\<close>

text \<open>
  The kernel as the specification gives it, in the arithmetic of the code: the weight of
  index \<open>i\<close> is \<open>(1 / sqrt (2 * pi * sigma^2)) * exp (- (3 - i)^2 / (2 * sigma^2))\<close>, where
  the two arguments and the quotient \<open>1 / sqrt ...\<close> are computed in double precision and
  the rest in single precision; the total is the sum of the 7 weights, accumulated from the
  first to the last in single precision; each coefficient is its weight divided by the
  total.
\<close>

definition gauss_weight :: "(binary32, 'd) cmath \<Rightarrow> binary32 \<Rightarrow> int \<Rightarrow> binary32" where
  "gauss_weight L sigma i =
     (let two_pi_sigma2 = d_mul L (d_mul L (d_mul L (d_of_int L 2) (M_PI L)) (d_of_f L sigma))
                            (d_of_f L sigma);
          two_sigma2 = d_mul L (d_mul L (d_of_int L 2) (d_of_f L sigma)) (d_of_f L sigma);
          x = b32_of_int (3 - i)
      in b32_mul (f_of_d L (d_div L (d_of_int L 1) (d_of_f L (sqrtf L (f_of_d L two_pi_sigma2)))))
                 (expf L (f_of_d L (d_div L (d_of_f L (b32_neg (b32_mul x x))) two_sigma2))))"

definition gauss_weights :: "(binary32, 'd) cmath \<Rightarrow> binary32 \<Rightarrow> binary32 list" where
  "gauss_weights L sigma = map (gauss_weight L sigma) [0..6]"

definition float_total :: "binary32 list \<Rightarrow> binary32" where
  "float_total ws = foldl b32_add (b32_of_int 0) ws"

definition gauss_kernel :: "(binary32, 'd) cmath \<Rightarrow> binary32 \<Rightarrow> binary32 list" where
  "gauss_kernel L sigma =
     map (\<lambda>w. b32_div w (float_total (gauss_weights L sigma))) (gauss_weights L sigma)"

text \<open>
  The number a float stands for (0 for an infinity and a NaN, which stand for none), and
  three kinds of floats: the finite ones, the finite ones that are positive, and the finite
  ones that are not negative and are in the format (a mantissa of at most 24 bits, an
  exponent of at least \<open>- 149\<close>).
\<close>

definition valof :: "binary32 \<Rightarrow> real" where
  "valof x = (case x of Finite s m e \<Rightarrow> (if s then - 1 else 1) * real_of_int m * 2 powi e | _ \<Rightarrow> 0)"

definition is_finite :: "binary32 \<Rightarrow> bool" where
  "is_finite x = (case x of Finite s m e \<Rightarrow> True | _ \<Rightarrow> False)"

definition is_positive :: "binary32 \<Rightarrow> bool" where
  "is_positive x = (case x of Finite s m e \<Rightarrow> \<not> s \<and> 0 < m | _ \<Rightarrow> False)"

definition finite_nonneg :: "binary32 \<Rightarrow> bool" where
  "finite_nonneg x =
     (case x of Finite s m e \<Rightarrow> 0 \<le> m \<and> m \<le> 2 ^ 24 \<and> - 149 \<le> e \<and> (s \<longrightarrow> m = 0)
      | _ \<Rightarrow> False)"

section \<open>Lemmas: lanes and saturation\<close>

lemma u16_of_bytes_zero [simp]: "u16_of_bytes b 0 = ucast b"
  by (simp add: u16_of_bytes_def)

lemma u16_of_bytes_split [simp]: "u16_of_bytes (ucast w) (ucast (drop_bit 8 w)) = w"
  unfolding u16_of_bytes_def by (rule bit_word_eqI) (auto simp: bit_simps)

lemma u32_of_bytes_u16 [simp]:
  "u32_of_bytes (ucast w) (ucast (drop_bit 8 w)) 0 0 = ucast (w :: u16)"
  unfolding u32_of_bytes_def
  by (rule bit_word_eqI) (auto simp: bit_simps dest: bit_imp_le_length)

lemma u32_of_bytes_channels [simp]:
  "u32_of_bytes (channel p 0) (channel p (Suc 0)) (channel p 2) (channel p 3) = p"
  unfolding u32_of_bytes_def channel_def
  apply (rule bit_word_eqI)
  apply (auto simp: bit_simps)
  subgoal for n by (cases "24 \<le> n") auto
  done

lemma lanes32_of_lanes32 [simp]: "lanes32 (of_lanes32 ws) = ws"
  by (induction ws) (simp_all add: of_lanes32_def bytes_of_u32_def)

lemma lanes16_of_lanes16 [simp]: "lanes16 (of_lanes16 ws) = ws"
  by (induction ws) (simp_all add: of_lanes16_def bytes_of_u16_def)

lemma setzero_bytes: "mm_setzero_si128 = [0,0,0,0,0,0,0,0,0,0,0,0,0,0,0,0]"
  by (simp add: mm_setzero_si128_def eval_nat_numeral)

lemma mask_bytes:
  "mm_set_epi32 0xFFFFFFFF 0xFFFFFFFF 0 0 = [0,0,0,0,0,0,0,0,255,255,255,255,255,255,255,255]"
  by (simp add: mm_set_epi32_def of_lanes32_def bytes_of_u32_def channel_def)

lemma andnot_mask:
  "mm_andnot_si128 [0,0,0,0,0,0,0,0,255,255,255,255,255,255,255,255]
     [b0,b1,b2,b3,b4,b5,b6,b7,b8,b9,b10,b11,b12,b13,b14,b15]
   = [b0,b1,b2,b3,b4,b5,b6,b7,0,0,0,0,0,0,0,0]"
proof -
  have "(255 :: u8) = - 1" by simp
  then have "NOT (255 :: u8) AND x = 0" for x
    by (simp only: bit.compl_one and.left_neutral not_one_eq) simp
  then show ?thesis by (simp add: mm_andnot_si128_def)
qed

lemma ucast_channel: "ucast (channel p k) = (of_nat (chan p k) :: 'a::len word)"
  by (simp add: chan_def)

lemma acc16:
  "sse2_acc16 (of_lanes32 [p0, p1, p2, p3]) (of_lanes32 [p4, p5, p6, p7]) =
   of_lanes16
     [of_nat (chan p0 0 + chan p2 0 + chan p4 0 + chan p6 0),
      of_nat (chan p0 1 + chan p2 1 + chan p4 1 + chan p6 1),
      of_nat (chan p0 2 + chan p2 2 + chan p4 2 + chan p6 2),
      of_nat (chan p0 3 + chan p2 3 + chan p4 3 + chan p6 3),
      of_nat (chan p1 0 + chan p3 0 + chan p5 0),
      of_nat (chan p1 1 + chan p3 1 + chan p5 1),
      of_nat (chan p1 2 + chan p3 2 + chan p5 2),
      of_nat (chan p1 3 + chan p3 3 + chan p5 3)]"
  by (simp add: sse2_acc16_def Let_def setzero_bytes mask_bytes andnot_mask mm_add_epi16_def
        mm_unpacklo_epi8_def mm_unpackhi_epi8_def of_lanes32_def bytes_of_u32_def ucast_channel)

lemma ucast_of_nat_16_32: "n < 65536 \<Longrightarrow> (ucast (of_nat n :: u16) :: u32) = of_nat n"
  by (simp add: unsigned_of_nat take_bit_nat_eq_self)

lemma acc32:
  assumes "n0 < 65536" "n1 < 65536" "n2 < 65536" "n3 < 65536"
    "n4 < 65536" "n5 < 65536" "n6 < 65536" "n7 < 65536"
  shows "sse2_acc32 (of_lanes16 [of_nat n0, of_nat n1, of_nat n2, of_nat n3,
                                 of_nat n4, of_nat n5, of_nat n6, of_nat n7]) =
    of_lanes32 [of_nat (n0 + n4), of_nat (n1 + n5), of_nat (n2 + n6), of_nat (n3 + n7)]"
  using assms
  by (simp add: sse2_acc32_def Let_def setzero_bytes mm_add_epi32_def mm_unpacklo_epi16_def
      mm_unpackhi_epi16_def ucast_of_nat_16_32 of_lanes16_def bytes_of_u16_def)

lemma saturate_twice: "saturate_u8 (saturate_s16 w) = clamp_u8 w"
proof -
  have a: "sint (32767 :: u16) = 32767" "sint (- 32768 :: u16) = - 32768" by simp_all
  consider "32767 < sint w" | "sint w < - 32768" | "- 32768 \<le> sint w" "sint w \<le> 32767"
    by linarith
  then show ?thesis
  proof cases
    case 1 then show ?thesis by (simp add: saturate_u8_def saturate_s16_def clamp_u8_def a)
  next
    case 2 then show ?thesis by (simp add: saturate_u8_def saturate_s16_def clamp_u8_def a)
  next
    case 3
    have "sint (ucast w :: u16) = signed_take_bit 15 (take_bit 32 (sint w))"
      by (simp add: signed_ucast_eq uint_sint)
    also have "\<dots> = signed_take_bit 15 (sint w)"
      by (simp add: signed_take_bit_take_bit)
    also have "\<dots> = sint w"
      using 3 by (intro signed_take_bit_int_eq_self) simp_all
    finally have s: "sint (ucast w :: u16) = sint w" .
    have u: "(ucast (ucast w :: u16) :: u8) = ucast w"
      by (rule bit_word_eqI) (auto simp: bit_simps)
    from 3 show ?thesis by (simp add: saturate_u8_def saturate_s16_def clamp_u8_def s u)
  qed
qed

lemma chan_less: "chan p k < 256"
  unfolding chan_def using unsigned_less [of "channel p k", where 'a = nat] by simp

lemma sint_of_nat_small: "n < 65536 \<Longrightarrow> sint (of_nat n :: u32) = int n"
  by (simp add: signed_of_nat signed_take_bit_int_eq_self)

lemma scale:
  "sse2_scale F (of_lanes32 [a0, a1, a2, a3]) =
   of_lanes32 (map (\<lambda>w. f_to_int32 F (f_mul F (f_of_int F (sint w))
                        (f_div F (f_of_int F 1) (f_of_int F KERNEL_SIZE)))) [a0, a1, a2, a3])"
  by (simp add: sse2_scale_def mm_cvtps_epi32_def mm_mul_ps_def mm_cvtepi32_ps_def mm_set1_ps_def
      eval_nat_numeral)

lemma pack:
  "sse2_pack (of_lanes32 [v0, v1, v2, v3]) =
   u32_of_bytes (clamp_u8 v0) (clamp_u8 v1) (clamp_u8 v2) (clamp_u8 v3)"
  by (simp add: sse2_pack_def Let_def setzero_bytes mm_cvtsi128_si32_def mm_packus_epi16_def
      mm_packs_epi32_def saturate_twice)

lemma sse2_pixel_window:
  "sse2_pixel F [of_lanes32 [p0, p1, p2, p3], of_lanes32 [p4, p5, p6, p7]] =
   Inr (box_pixel F [p0, p1, p2, p3, p4, p5, p6])"
proof -
  define A where "A k = chan p0 k + chan p2 k + chan p4 k + chan p6 k" for k
  define B where "B k = chan p1 k + chan p3 k + chan p5 k" for k
  note b = chan_less [of p0] chan_less [of p1] chan_less [of p2] chan_less [of p3]
    chan_less [of p4] chan_less [of p5] chan_less [of p6]
  have lt: "A k < 65536" "B k < 65536" "A k + B k < 65536" for k
    using b [of k] by (simp_all add: A_def B_def)
  have cs: "channel_sum [p0, p1, p2, p3, p4, p5, p6] k = int (A k + B k)" for k
    by (simp add: channel_sum_def chan_def A_def B_def)
  have 1: "sse2_acc16 (of_lanes32 [p0, p1, p2, p3]) (of_lanes32 [p4, p5, p6, p7]) =
    of_lanes16 [of_nat (A 0), of_nat (A 1), of_nat (A 2), of_nat (A 3),
                of_nat (B 0), of_nat (B 1), of_nat (B 2), of_nat (B 3)]"
    unfolding A_def B_def by (rule acc16)
  have 2: "sse2_acc32 (of_lanes16 [of_nat (A 0), of_nat (A 1), of_nat (A 2), of_nat (A 3),
                of_nat (B 0), of_nat (B 1), of_nat (B 2), of_nat (B 3)]) =
     of_lanes32 [of_nat (A 0 + B 0), of_nat (A 1 + B 1), of_nat (A 2 + B 2), of_nat (A 3 + B 3)]"
    by (rule acc32) (rule lt)+
  have "sse2_pixel F [of_lanes32 [p0, p1, p2, p3], of_lanes32 [p4, p5, p6, p7]] =
     Inr (sse2_pack (sse2_scale F (sse2_acc32
            (sse2_acc16 (of_lanes32 [p0, p1, p2, p3]) (of_lanes32 [p4, p5, p6, p7])))))"
    by (simp add: sse2_pixel_def array_get_def rbind_def)
  also have "\<dots> = Inr (box_pixel F [p0, p1, p2, p3, p4, p5, p6])"
    unfolding 1 2 scale
    by (simp add: pack sint_of_nat_small lt box_pixel_def box_channel_def cs del: of_nat_add)
  finally show ?thesis .
qed

section \<open>Lemmas: the window\<close>

lemmas blur_consts = KERNEL_SIZE_def HALF_KERNEL_def REGISTERS_CNT_def

lemma upto_0_3: "[0..3] = [0, 1, 2, 3 :: int]"
  by (simp add: upto_rec1)

lemma upto_0_1: "[0..1] = [0, 1 :: int]"
  by (simp add: upto_rec1)

lemmas loop_simps = left_mirror.simps left_load.simps right_load.simps right_mirror.simps

declare left_mirror.simps [simp del] left_load.simps [simp del] right_load.simps [simp del]
  right_mirror.simps [simp del] sse2_columns.simps [simp del] sse2_rows.simps [simp del]
  avx_columns.simps [simp del] avx_rows.simps [simp del] avx_accumulate.simps [simp del]
  avx_kernels.simps [simp del] kernel_fill.simps [simp del] kernel_normalize.simps [simp del]

lemmas gather_simps = loop_simps gather_window_def blur_consts Let_def load_u32_def array_set_def rbind_def
       mm_load_si128_local_def mm_loadu_si128_def upto_0_3 upto_0_1

lemma gather_left0:
  assumes "0 \<le> p" "p + 3 < int (length src)"
  shows "gather_window u src p width 0 =
    Inr [of_lanes32 [src ! nat (p + 3), src ! nat (p + 2), src ! nat (p + 1), src ! nat p],
         of_lanes32 [src ! nat (p + 1), src ! nat (p + 2), src ! nat (p + 3), u]]"
  using assms by (simp add: gather_simps)

lemma gather_left1:
  assumes "0 \<le> p - 1" "p + 3 < int (length src)"
  shows "gather_window u src p width 1 =
    Inr [of_lanes32 [src ! nat (p + 3), src ! nat (p + 2), src ! nat (p - 1), src ! nat p],
         of_lanes32 [src ! nat (p + 1), src ! nat (p + 2), src ! nat (p + 3), u]]"
  using assms by (simp add: gather_simps)

lemma gather_left2:
  assumes "0 \<le> p - 2" "p + 3 < int (length src)"
  shows "gather_window u src p width 2 =
    Inr [of_lanes32 [src ! nat (p + 3), src ! nat (p - 2), src ! nat (p - 1), src ! nat p],
         of_lanes32 [src ! nat (p + 1), src ! nat (p + 2), src ! nat (p + 3), u]]"
  using assms by (simp add: gather_simps)

lemma gather_interior:
  assumes "3 \<le> column" "column \<le> width - 3" "0 \<le> p - 3" "p + 4 < int (length src)"
  shows "gather_window u src p width column =
    Inr [of_lanes32 [src ! nat (p - 3), src ! nat (p - 2), src ! nat (p - 1), src ! nat p],
         of_lanes32 [src ! nat (p + 1), src ! nat (p + 2), src ! nat (p + 3), src ! nat (p + 4)]]"
  using assms by (simp add: gather_simps add.commute)

lemma gather_right1:
  assumes "column = width - 1" "3 \<le> column" "0 \<le> p - 5" "p < int (length src)"
  shows "gather_window u src p width column =
    Inr [of_lanes32 [src ! nat p, src ! nat p, src ! nat (p - 1), src ! nat (p - 2)],
         of_lanes32 [src ! nat (p - 3), src ! nat (p - 4), src ! nat (p - 5), u]]"
  using assms by (simp add: gather_simps)

lemma gather_right2:
  assumes "column = width - 2" "3 \<le> column" "0 \<le> p - 4" "p + 1 < int (length src)"
  shows "gather_window u src p width column =
    Inr [of_lanes32 [src ! nat p, src ! nat (p + 1), src ! nat p, src ! nat (p - 1)],
         of_lanes32 [src ! nat (p - 2), src ! nat (p - 3), src ! nat (p - 4), u]]"
  using assms by (simp add: gather_simps)

lemma gather_interior_fail4:
  assumes "3 \<le> column" "column \<le> width - 3" "0 \<le> p - 3" "p + 4 = int (length src)"
  shows "gather_window u src p width column = Inl (ReadOutOfBounds (p + 4))"
  using assms by (auto simp: gather_simps)


lemma local_shape: "\<exists>p0 p1 p2 p3. mm_load_si128_local u a off = of_lanes32 [p0, p1, p2, p3]"
  by (simp only: mm_load_si128_local_def upto_0_3 list.map) blast

lemma loadu_shape:
  assumes "mm_loadu_si128 buf i = Inr r"
  shows "\<exists>p0 p1 p2 p3. r = of_lanes32 [p0, p1, p2, p3]"
  using assms
  by (auto simp: mm_loadu_si128_def upto_0_3 rbind_def split: sum.splits)

lemma gather_shape:
  assumes "gather_window u src p width column = Inr rgbaIn"
  shows "\<exists>p0 p1 p2 p3 p4 p5 p6 p7.
           rgbaIn = [of_lanes32 [p0, p1, p2, p3], of_lanes32 [p4, p5, p6, p7]]"
proof -
  have border: "\<exists>p0 p1 p2 p3 p4 p5 p6 p7.
      map (\<lambda>k. mm_load_si128_local u px (4 * k)) [0..REGISTERS_CNT - 1]
        = [of_lanes32 [p0, p1, p2, p3], of_lanes32 [p4, p5, p6, p7]]" for px
    using local_shape [of u px 0] local_shape [of u px 4]
    by (auto simp: blur_consts upto_0_1)
  show ?thesis
  proof (cases "column < HALF_KERNEL \<or> column > width - HALF_KERNEL")
    case True
    with assms border show ?thesis
      by (auto simp: gather_window_def Let_def rbind_def split: sum.splits prod.splits if_splits)
  next
    case False
    with assms obtain r0 r1 where
      r: "mm_loadu_si128 src (p + 4 * 0 - HALF_KERNEL) = Inr r0"
      "mm_loadu_si128 src (p + 4 * 1 - HALF_KERNEL) = Inr r1" "rgbaIn = [r0, r1]"
      by (auto simp: gather_window_def Let_def rbind_def blur_consts upto_0_1 split: sum.splits)
    from loadu_shape [OF r(1)] loadu_shape [OF r(2)] r(3) show ?thesis by blast
  qed
qed

lemma gather_ok_early:
  assumes "7 \<le> width" "0 \<le> column" "column \<le> width - 5" "0 \<le> b" "b + width \<le> int (length src)"
  shows "\<exists>rgbaIn. gather_window u src (b + column) width column = Inr rgbaIn"
proof -
  consider "column = 0" | "column = 1" | "column = 2" | "3 \<le> column" using assms by linarith
  then show ?thesis
  proof cases
    case 1 then show ?thesis using assms by (simp add: gather_left0)
  next
    case 2 then show ?thesis using assms by (simp add: gather_left1)
  next
    case 3 then show ?thesis using assms by (simp add: gather_left2)
  next
    case 4 then show ?thesis using assms by (simp add: gather_interior)
  qed
qed

lemma gather_ok_slack:
  assumes "7 \<le> width" "0 \<le> column" "column < width" "0 \<le> b"
    "b + width + 2 \<le> int (length src)"
  shows "\<exists>rgbaIn. gather_window u src (b + column) width column = Inr rgbaIn"
proof -
  consider "column \<le> width - 5" | "column = width - 4" | "column = width - 3"
    | "column = width - 2" | "column = width - 1" using assms by linarith
  then show ?thesis
  proof cases
    case 1 then show ?thesis using assms by (intro gather_ok_early) simp_all
  next
    case 2 then show ?thesis using assms by (simp add: gather_interior)
  next
    case 3 then show ?thesis using assms by (simp add: gather_interior)
  next
    case 4 then show ?thesis using assms by (simp add: gather_right2)
  next
    case 5 then show ?thesis using assms by (simp add: gather_right1)
  qed
qed

lemma gather_fail:
  assumes "7 \<le> width" "column = width - 4" "0 \<le> b" "b + width = int (length src)"
  shows "gather_window u src (b + column) width column = Inl (ReadOutOfBounds (b + width))"
  using gather_interior_fail4 [of column width "b + column" src u] assms by simp

lemma upto_0_6: "[0..6] = [0, 1, 2, 3, 4, 5, 6 :: int]"
  by (simp add: upto_rec1)

lemma window_regs:
  "window [of_lanes32 [p0, p1, p2, p3], of_lanes32 [p4, p5, p6, p7]] = [p0, p1, p2, p3, p4, p5, p6]"
  by (simp add: window_def blur_consts eval_nat_numeral)

lemma row_in_buffer:
  assumes "0 \<le> row" "row < height" "0 \<le> (width :: int)" "width * height \<le> n"
  shows "0 \<le> row * width" "row * width + width \<le> n"
proof -
  show "0 \<le> row * width" using assms by simp
  have "(row + 1) * width \<le> height * width"
    using assms by (intro mult_right_mono) simp_all
  then show "row * width + width \<le> n"
    using assms by (simp add: algebra_simps)
qed

section \<open>The window at the borders\<close>

text \<open>
  Claim C6. In both passes, for an output column \<open>c\<close> in \<open>{0, 1, 2}\<close> of a row of width
  at least 7, slot \<open>i\<close> of the window holds the pixel at column \<open>c + (3 - i)\<close> of the same
  row for \<open>i < 3 - c\<close>, and the pixel at column \<open>c + (i - 3)\<close> for the other slots up to 6.
  The row is row \<open>row\<close> of an image of \<open>width * height\<close> pixels, and the pointer of the pass
  stands at \<open>row * width + column\<close>. Both passes gather with the same text, which is
  \<open>gather_window\<close>.
\<close>

theorem gather_window_left_border:
  assumes "7 \<le> width" "0 \<le> row" "row < height" "width * height \<le> int (length src)"
    and "column \<in> {0, 1, 2}"
  shows "\<exists>rgbaIn. gather_window u src (row * width + column) width column = Inr rgbaIn \<and>
           window rgbaIn =
             map (\<lambda>i. src ! nat (row * width +
                          (if i < 3 - column then column + (3 - i) else column + (i - 3))))
               [0..6]"
proof -
  from row_in_buffer [OF assms(2,3) _ assms(4)] assms(1)
  have b: "0 \<le> row * width" "row * width + width \<le> int (length src)" by simp_all
  from assms(5) consider "column = 0" | "column = 1" | "column = 2" by auto
  then show ?thesis
  proof cases
    case 1
    with b assms(1) show ?thesis
      by (simp add: gather_left0 window_regs upto_0_6 add.commute)
  next
    case 2
    with b assms(1) show ?thesis
      by (simp add: gather_left1 window_regs upto_0_6 add.commute)
  next
    case 3
    with b assms(1) show ?thesis
      by (simp add: gather_left2 window_regs upto_0_6 add.commute)
  qed
qed

theorem gather_window_left_border_witness:
  "\<exists>rgbaIn. gather_window 0 [10, 11, 12, 13, 14, 15, 16] 1 7 1 = Inr rgbaIn \<and>
      window rgbaIn = [14, 13, 10, 11, 12, 13, 14]"
  using gather_window_left_border [of 7 0 1 "[10, 11, 12, 13, 14, 15, 16]" 1 0]
  by (simp add: upto_0_6)

text \<open>
  Claim C7, as amended. For an output column \<open>c > width - 3\<close> of a row of width at least 7,
  slot \<open>j\<close> of the window holds the pixel at column \<open>c + j\<close> for \<open>j < width - c\<close>; the
  remaining slots go backward from the current column \<open>c\<close> itself, not from the last pixel
  of the row: slot \<open>(width - c) + k\<close> holds the pixel at column \<open>c - k\<close>.
\<close>

theorem gather_window_right_border:
  assumes "7 \<le> width" "0 \<le> row" "row < height" "width * height \<le> int (length src)"
    and "width - 3 < column" "column < width"
  shows "\<exists>rgbaIn. gather_window u src (row * width + column) width column = Inr rgbaIn \<and>
           window rgbaIn =
             map (\<lambda>j. src ! nat (row * width +
                          (if j < width - column then column + j
                           else column - (j - (width - column)))))
               [0..6]"
proof -
  from row_in_buffer [OF assms(2,3) _ assms(4)] assms(1)
  have b: "0 \<le> row * width" "row * width + width \<le> int (length src)" by simp_all
  from assms(5,6) consider "column = width - 1" | "column = width - 2" by linarith
  then show ?thesis
  proof cases
    case 1
    show ?thesis unfolding 1 using b assms(1)
      by (simp add: gather_right1 window_regs upto_0_6 algebra_simps)
  next
    case 2
    show ?thesis unfolding 2 using b assms(1)
      by (simp add: gather_right2 window_regs upto_0_6 algebra_simps)
  qed
qed

theorem gather_window_right_border_witness:
  "\<exists>rgbaIn. gather_window 0 [10, 11, 12, 13, 14, 15, 16] 5 7 5 = Inr rgbaIn \<and>
      window rgbaIn = [15, 16, 15, 14, 13, 12, 11]"
  using gather_window_right_border [of 7 0 1 "[10, 11, 12, 13, 14, 15, 16]" 5 0]
  by (simp add: upto_0_6)

text \<open>
  Claim C7 as stated fails. On the row \<open>[10, .., 16]\<close> of width 7 the window of column 5
  is \<open>[15, 16, 15, 14, 13, 12, 11]\<close>, where going backward from the last pixel of the row and
  repeating it gives \<open>[15, 16, 16, 15, 14, 13, 12]\<close>; and the window of column 6 is
  \<open>[16, 16, 15, 14, 13, 12, 11]\<close>, where going backward from the last pixel without
  repeating it gives \<open>[16, 15, 14, 13, 12, 11, 10]\<close>. So neither reading of the sentence
  holds at both border columns.
\<close>

theorem right_border_not_mirrored_at_last_pixel:
  "map_sum id window (gather_window 0 [10, 11, 12, 13, 14, 15, 16] 5 7 5)
     = Inr [15, 16, 15, 14, 13, 12, 11]
   \<and> mirror_from_last_pixel 0 [10, 11, 12, 13, 14, 15, 16] 7 5 = [15, 16, 16, 15, 14, 13, 12]
   \<and> map_sum id window (gather_window 0 [10, 11, 12, 13, 14, 15, 16] 6 7 6)
     = Inr [16, 16, 15, 14, 13, 12, 11]
   \<and> mirror_from_last_pixel 1 [10, 11, 12, 13, 14, 15, 16] 7 6 = [16, 15, 14, 13, 12, 11, 10]"
  by (simp add: gather_right1 gather_right2 window_regs mirror_from_last_pixel_def upto_0_6)

section \<open>One output pixel of the SSE2 pass\<close>

lemma sse2_step_result:
  assumes "gather_window u src p width column = Inr rgbaIn"
    and "0 \<le> height * column + row" and "height * column + row < int (length dst)"
  shows "sse2_step F u src p dst width height row column =
         Inr (dst[nat (height * column + row) := box_pixel F (window rgbaIn)])"
proof -
  from gather_shape [OF assms(1)] obtain p0 p1 p2 p3 p4 p5 p6 p7 where
    r: "rgbaIn = [of_lanes32 [p0, p1, p2, p3], of_lanes32 [p4, p5, p6, p7]]" by blast
  show ?thesis
    using assms by (simp add: sse2_step_def rbind_def r sse2_pixel_window window_regs store_u32_def)
qed

text \<open>
  Claim C10. The sums in 16-bit lanes do not wrap around. The registers hold the pixels
  \<open>p0 .. p7\<close> (any 32-bit words). After the four \<^verbatim>\<open>_mm_add_epi16\<close> the lanes 0 to 3 hold
  the exact sums of the channels of \<open>p0, p2, p4, p6\<close> and the lanes 4 to 7 those of
  \<open>p1, p3, p5\<close> (\<open>p7\<close> is masked); every lane is at most 1785; and after the widening the
  four 32-bit lanes hold the exact sums of the channels of the 7 pixels. All the addends are
  non-negative, so an exact final sum leaves no room for a wrap-around in between.
\<close>

theorem sse2_lane_sums_exact:
  "map unat (lanes16 (sse2_acc16 (of_lanes32 [p0, p1, p2, p3]) (of_lanes32 [p4, p5, p6, p7]))) =
     [chan p0 0 + chan p2 0 + chan p4 0 + chan p6 0,
      chan p0 1 + chan p2 1 + chan p4 1 + chan p6 1,
      chan p0 2 + chan p2 2 + chan p4 2 + chan p6 2,
      chan p0 3 + chan p2 3 + chan p4 3 + chan p6 3,
      chan p1 0 + chan p3 0 + chan p5 0,
      chan p1 1 + chan p3 1 + chan p5 1,
      chan p1 2 + chan p3 2 + chan p5 2,
      chan p1 3 + chan p3 3 + chan p5 3]
   \<and> list_all (\<lambda>w. unat w \<le> 1785)
         (lanes16 (sse2_acc16 (of_lanes32 [p0, p1, p2, p3]) (of_lanes32 [p4, p5, p6, p7])))
   \<and> map unat (lanes32 (sse2_acc32
         (sse2_acc16 (of_lanes32 [p0, p1, p2, p3]) (of_lanes32 [p4, p5, p6, p7])))) =
     map (\<lambda>k. chan p0 k + chan p1 k + chan p2 k + chan p3 k + chan p4 k + chan p5 k + chan p6 k)
       [0, 1, 2, 3]"
proof -
  define A where "A k = chan p0 k + chan p2 k + chan p4 k + chan p6 k" for k
  define B where "B k = chan p1 k + chan p3 k + chan p5 k" for k
  note b = chan_less [of p0] chan_less [of p1] chan_less [of p2] chan_less [of p3]
    chan_less [of p4] chan_less [of p5] chan_less [of p6]
  have lt: "A k < 65536" "B k < 65536" "A k + B k < 65536" "A k \<le> 1785" "B k \<le> 1785" for k
    using b [of k] by (simp_all add: A_def B_def)
  have u16: "unat (of_nat n :: u16) = n" if "n < 65536" for n
    using that by (simp add: unat_of_nat)
  have u32: "unat (of_nat n :: u32) = n" if "n < 65536" for n
    using that by (simp add: unat_of_nat)
  have 1: "sse2_acc16 (of_lanes32 [p0, p1, p2, p3]) (of_lanes32 [p4, p5, p6, p7]) =
    of_lanes16 [of_nat (A 0), of_nat (A 1), of_nat (A 2), of_nat (A 3),
                of_nat (B 0), of_nat (B 1), of_nat (B 2), of_nat (B 3)]"
    unfolding A_def B_def by (rule acc16)
  have 2: "sse2_acc32 (of_lanes16 [of_nat (A 0), of_nat (A 1), of_nat (A 2), of_nat (A 3),
                of_nat (B 0), of_nat (B 1), of_nat (B 2), of_nat (B 3)]) =
     of_lanes32 [of_nat (A 0 + B 0), of_nat (A 1 + B 1), of_nat (A 2 + B 2), of_nat (A 3 + B 3)]"
    by (rule acc32) (rule lt)+
  show ?thesis
    unfolding 1 2
    by (simp add: u16 u32 lt del: of_nat_add) (simp add: A_def B_def)
qed

section \<open>The SSE2 back end and \<^verbatim>\<open>sigma\<close>\<close>

lemma prepare_kernel_total: "\<exists>kern. prepare_kernel F L sigma = Inr kern"
  by (simp add: prepare_kernel_def Let_def kernel_fill.simps kernel_normalize.simps
      blur_consts array_set_def array_get_def rbind_def eval_nat_numeral)

text \<open>
  Claim C9. The result of \<^verbatim>\<open>blur_impl_sse2\<close> (the two buffers, or the error it stops
  with) is the same for any two values of \<^verbatim>\<open>sigma\<close>: the kernel preparation always
  yields a kernel, and the pass does not read it.
\<close>

theorem blur_impl_sse2_ignores_sigma:
  "blur_impl_sse2 F L u src dst width height sigma1 =
   blur_impl_sse2 F L u src dst width height sigma2"
proof -
  obtain k1 k2 where "prepare_kernel F L sigma1 = Inr k1" "prepare_kernel F L sigma2 = Inr k2"
    using prepare_kernel_total by meson
  then show ?thesis
    by (simp add: blur_impl_sse2_def blur_impl_horizontal_pass_sse2_def rbind_def)
qed

section \<open>Reads outside the source buffer\<close>

lemma dst_index_ok:
  assumes "0 \<le> column" "column < width" "0 \<le> row" "row < height" "height * width \<le> (n :: int)"
  shows "0 \<le> height * column + row" "height * column + row < n"
proof -
  show "0 \<le> height * column + row" using assms by simp
  have "height * (column + 1) \<le> height * width"
    using assms by (intro mult_left_mono) simp_all
  then show "height * column + row < n"
    using assms by (simp add: algebra_simps)
qed

lemma sse2_columns_ok:
  assumes "7 \<le> width" "0 \<le> column" "column \<le> width" "0 \<le> b"
    and "b + width + 2 \<le> int (length src)"
    and "0 \<le> row" "row < height" "height * width \<le> int (length dst)"
  shows "\<exists>dst'. sse2_columns F u src width height row column (b + column, dst) = Inr (b + width, dst')
           \<and> length dst' = length dst"
  using assms(2,3,8)
proof (induction "nat (width - column)" arbitrary: column dst)
  case 0
  then have "column = width" by simp
  then show ?case by (simp add: sse2_columns.simps)
next
  case (Suc n)
  then have c: "column < width" by linarith
  from gather_ok_slack [OF assms(1) Suc.prems(1) c assms(4,5)] obtain rgbaIn where
    g: "gather_window u src (b + column) width column = Inr rgbaIn" by blast
  note i = dst_index_ok [OF Suc.prems(1) c assms(6,7) Suc.prems(3)]
  let ?dst = "dst[nat (height * column + row) := box_pixel F (window rgbaIn)]"
  have s: "sse2_step F u src (b + column) dst width height row column = Inr ?dst"
    by (rule sse2_step_result [OF g i])
  have "\<exists>dst'. sse2_columns F u src width height row (column + 1) (b + (column + 1), ?dst)
           = Inr (b + width, dst') \<and> length dst' = length ?dst"
    using Suc.hyps(2) c Suc.prems by (intro Suc.hyps(1)) simp_all
  then show ?case
    using c s by (subst sse2_columns.simps) (simp add: rbind_def add.assoc)
qed

lemma sse2_columns_fail:
  assumes "7 \<le> width" "0 \<le> column" "column \<le> width - 4" "0 \<le> b"
    and "b + width = int (length src)"
    and "0 \<le> row" "row < height" "height * width \<le> int (length dst)"
  shows "sse2_columns F u src width height row column (b + column, dst)
           = Inl (ReadOutOfBounds (b + width))"
  using assms(2,3,8)
proof (induction "nat (width - 4 - column)" arbitrary: column dst)
  case 0
  then have c: "column = width - 4" by simp
  have "sse2_step F u src (b + column) dst width height row column
          = Inl (ReadOutOfBounds (b + width))"
    by (simp add: sse2_step_def rbind_def gather_fail [OF assms(1) c assms(4,5)])
  then show ?case
    using c assms(1) by (subst sse2_columns.simps) (simp add: rbind_def)
next
  case (Suc n)
  then have c: "column \<le> width - 5" "column < width" by linarith+
  have "b + width \<le> int (length src)" using assms(5) by simp
  from gather_ok_early [OF assms(1) Suc.prems(1) c(1) assms(4) this] obtain rgbaIn where
    g: "gather_window u src (b + column) width column = Inr rgbaIn" by blast
  note i = dst_index_ok [OF Suc.prems(1) c(2) assms(6,7) Suc.prems(3)]
  let ?dst = "dst[nat (height * column + row) := box_pixel F (window rgbaIn)]"
  have s: "sse2_step F u src (b + column) dst width height row column = Inr ?dst"
    by (rule sse2_step_result [OF g i])
  have "sse2_columns F u src width height row (column + 1) (b + (column + 1), ?dst)
           = Inl (ReadOutOfBounds (b + width))"
    using Suc.hyps(2) c Suc.prems by (intro Suc.hyps(1)) simp_all
  then show ?case
    using c s by (subst sse2_columns.simps) (simp add: rbind_def add.assoc)
qed

lemma sse2_rows_fail:
  assumes "7 \<le> width" "0 \<le> row" "row < height"
    and "int (length src) = width * height" "height * width \<le> int (length dst)"
  shows "sse2_rows F u src width height row (row * width, dst)
           = Inl (ReadOutOfBounds (width * height))"
  using assms(2,3,5)
proof (induction "nat (height - 1 - row)" arbitrary: row dst)
  case 0
  then have r: "row = height - 1" by simp
  have "row * width + width = (row + 1) * width" by (simp add: algebra_simps)
  also have "\<dots> = int (length src)" unfolding r using assms(4) by (simp add: mult.commute)
  finally have b: "0 \<le> row * width" "row * width + width = int (length src)"
    using assms(1) "0.prems" by simp_all
  have "sse2_columns F u src width height row 0 (row * width + 0, dst)
          = Inl (ReadOutOfBounds (row * width + width))"
    using assms(1) 0 by (intro sse2_columns_fail b) simp_all
  then show ?case
    using 0(3) b assms(4) by (subst sse2_rows.simps) (simp add: rbind_def)
next
  case (Suc n)
  then have r: "row + 1 < height" by linarith
  have "(row + 2) * width \<le> height * width"
    using r assms(1) by (intro mult_right_mono) simp_all
  then have b: "0 \<le> row * width" "row * width + width + 2 \<le> int (length src)"
    using assms(1,4) Suc.prems by (simp_all add: algebra_simps)
  have "\<exists>dst'. sse2_columns F u src width height row 0 (row * width + 0, dst)
          = Inr (row * width + width, dst') \<and> length dst' = length dst"
    using assms(1) Suc.prems by (intro sse2_columns_ok b) simp_all
  then obtain dst' where
    d: "sse2_columns F u src width height row 0 (row * width, dst) = Inr (row * width + width, dst')"
      "length dst' = length dst" by auto
  have "sse2_rows F u src width height (row + 1) ((row + 1) * width, dst')
          = Inl (ReadOutOfBounds (width * height))"
    using Suc.hyps(2) r Suc.prems d(2) by (intro Suc.hyps(1)) simp_all
  then show ?case
    using Suc.prems(2) d(1) by (subst sse2_rows.simps) (simp add: rbind_def algebra_simps)
qed

lemma sse2_pass_fails:
  assumes "7 \<le> width" "1 \<le> height"
    and "int (length src) = width * height" "width * height \<le> int (length dst)"
  shows "blur_impl_horizontal_pass_sse2 F u src dst kern width height
           = Inl (ReadOutOfBounds (width * height))"
  using sse2_rows_fail [of width 0 height src dst F u] assms
  by (simp add: blur_impl_horizontal_pass_sse2_def rbind_def mult.commute)


lemma avx_kernels_ok:
  assumes "length kern = 7"
  shows "\<exists>kernels. avx_kernels kern 0 0 (replicate (nat HALF_KERNEL) []) = Inr kernels
           \<and> length kernels = 3"
  using assms
  by (simp add: avx_kernels.simps blur_consts rbind_def array_get_def array_set_def
      eval_nat_numeral)

lemma avx_kernels_length:
  assumes "avx_kernels kern 0 0 (replicate (nat HALF_KERNEL) []) = Inr kernels"
  shows "length kernels = 3"
  using assms
  by (auto simp: avx_kernels.simps blur_consts rbind_def array_get_def array_set_def
      eval_nat_numeral split: if_splits)

lemma avx_pixel_fails:
  assumes "length rgbaIn = 2" "length kernels = 3"
  shows "avx_pixel F kern kernels rgbaIn = Inl (ArrayOutOfBounds ''kernels'' 3)"
  using assms
  by (simp add: avx_pixel_def Let_def avx_accumulate.simps avx_mul_add_def rbind_def array_get_def)

lemma avx_step_fails:
  assumes "gather_window u src p width column = Inr rgbaIn" "length kernels = 3"
  shows "avx_step F u kern kernels src p dst width height row column
           = Inl (ArrayOutOfBounds ''kernels'' 3)"
proof -
  from gather_shape [OF assms(1)] have "length rgbaIn = 2" by auto
  then show ?thesis
    using assms by (simp add: avx_step_def rbind_def avx_pixel_fails)
qed

lemma avx_pass_fails:
  assumes "1 \<le> width" "1 \<le> height" "4 \<le> length src" "length kern = 7"
  shows "blur_impl_horizontal_pass_avx F u src dst kern width height
           = Inl (ArrayOutOfBounds ''kernels'' 3)"
proof -
  from avx_kernels_ok [OF assms(4)] obtain kernels where
    k: "avx_kernels kern 0 0 (replicate (nat HALF_KERNEL) []) = Inr kernels" "length kernels = 3"
    by blast
  have g: "\<exists>rgbaIn. gather_window u src 0 width 0 = Inr rgbaIn"
    using assms(3) by (simp add: gather_left0)
  then obtain rgbaIn where "gather_window u src 0 width 0 = Inr rgbaIn" ..
  from avx_step_fails [OF this k(2)]
  have "avx_step F u kern kernels src 0 dst width height 0 0 = Inl (ArrayOutOfBounds ''kernels'' 3)" .
  then have "avx_rows F u kern kernels src width height 0 (0, dst)
               = Inl (ArrayOutOfBounds ''kernels'' 3)"
    using assms(1,2)
    by (subst avx_rows.simps, subst avx_columns.simps) (simp add: rbind_def)
  then show ?thesis
    by (simp add: blur_impl_horizontal_pass_avx_def k(1) rbind_def)
qed

lemma prepare_kernel_length:
  assumes "prepare_kernel F L sigma = Inr kern"
  shows "length kern = 7"
  using assms
  by (simp add: prepare_kernel_def Let_def kernel_fill.simps kernel_normalize.simps
      blur_consts array_set_def array_get_def rbind_def eval_nat_numeral) auto


lemma sse2_pass_4x4:
  assumes "length src = 16" "length dst = 16"
  shows "blur_impl_horizontal_pass_sse2 F u src dst kern 4 4 = Inl (ReadOutOfBounds (- 1))"
  using assms
  by (simp add: blur_impl_horizontal_pass_sse2_def sse2_rows.simps sse2_columns.simps
      sse2_step_def gather_simps sse2_pixel_window store_u32_def)

text \<open>
  Claim C4 fails on the code. With buffers of exactly \<open>width * height\<close> pixels and
  \<open>width\<close>, \<open>height\<close> at least 7, the SSE2 pass stops at a read of the pixel with index
  \<open>width * height\<close>, the first one after the source buffer: in the last row, at column
  \<open>width - 4\<close>, the two 16-byte loads of an interior column take the 8 pixels from column
  \<open>width - 7\<close> to column \<open>width\<close>. (Column \<open>width - 3\<close> is an interior column too, since the
  right border is \<^verbatim>\<open>column > width - HALF_KERNEL\<close>; its window has the pixel at column
  \<open>width\<close>, the first pixel of the next row, as its seventh tap, see \<open>gather_interior\<close>.)
\<close>

theorem sse2_pass_reads_past_the_buffer:
  assumes "7 \<le> width" "7 \<le> height"
    and "int (length src) = width * height" "int (length dst) = width * height"
  shows "blur_impl_horizontal_pass_sse2 F u src dst kern width height
           = Inl (ReadOutOfBounds (width * height))"
  using assms by (intro sse2_pass_fails) simp_all

theorem sse2_pass_reads_past_the_buffer_witness:
  "blur_impl_horizontal_pass_sse2 binary32_fpu 0 (replicate 100 0) (replicate 100 0) [] 10 10
     = Inl (ReadOutOfBounds 100)"
  using sse2_pass_reads_past_the_buffer
    [of 10 10 "replicate 100 0" "replicate 100 0" binary32_fpu 0 "[]"]
  by simp

text \<open>
  Claim C5 fails on the code. For the 4 by 4 image whose pixels all are \<open>0xFF0000FF\<close>
  (the channels 255, 0, 0, 255), with buffers of 16 pixels, the SSE2 back end stops in row 0
  at column 3, a right border column, at the read of the pixel before the buffer
  (\<^verbatim>\<open>*(src - k)\<close> with \<open>k = 4\<close>); the AVX back end stops at the first output pixel with the
  subscript 3 of the array \<^verbatim>\<open>kernels\<close>, which has 3 elements. Neither returns an image.
\<close>

theorem flat_4x4_image_is_not_blurred:
  "blur_impl_sse2 F L u (replicate 16 0xFF0000FF) (replicate 16 0) 4 4 sigma
     = Inl (ReadOutOfBounds (- 1))
   \<and> blur_impl_avx F L u (replicate 16 0xFF0000FF) (replicate 16 0) 4 4 sigma
     = Inl (ArrayOutOfBounds ''kernels'' 3)"
proof -
  obtain kern where k: "prepare_kernel F L sigma = Inr kern"
    using prepare_kernel_total [of F L sigma] by blast
  note l = prepare_kernel_length [OF k]
  show ?thesis
    by (simp add: blur_impl_sse2_def blur_impl_avx_def k rbind_def sse2_pass_4x4
        avx_pass_fails l)
qed

section \<open>The AVX pass indexes its arrays out of bounds\<close>

text \<open>
  Claim C2 fails on the code. The AVX pass declares \<^verbatim>\<open>rgbaIn[REGISTERS_CNT]\<close> (2
  registers) and \<^verbatim>\<open>kernels[HALF_KERNEL]\<close> (3 vectors, made of the coefficients 0 to 5),
  but its arithmetic uses \<^verbatim>\<open>rgbaIn[0]\<close> to \<^verbatim>\<open>rgbaIn[3]\<close> and \<^verbatim>\<open>kernels[0]\<close> to
  \<^verbatim>\<open>kernels[6]\<close>. At every output position whose window could be read, the first subscript
  out of bounds is \<^verbatim>\<open>kernels[3]\<close>, in the second round of the loop; no pixel is computed.
\<close>

theorem avx_step_out_of_bounds:
  assumes "gather_window u src p width column = Inr rgbaIn"
    and "avx_kernels kern 0 0 (replicate (nat HALF_KERNEL) []) = Inr kernels"
  shows "avx_step F u kern kernels src p dst width height row column
           = Inl (ArrayOutOfBounds ''kernels'' 3)"
  using assms(1) avx_kernels_length [OF assms(2)] by (rule avx_step_fails)

theorem avx_step_out_of_bounds_witness:
  "avx_step binary32_fpu 0 (replicate 7 (Finite False 1 0))
     (replicate 3 (replicate 8 (Finite False 1 0)))
     [0x01020304, 0x11121314, 0x21222324, 0x31323334, 0x41424344, 0x51525354, 0x61626364,
      0x71727374, 0x81828384] 3 [0, 0, 0, 0, 0, 0, 0, 0, 0] 9 1 0 3
   = Inl (ArrayOutOfBounds ''kernels'' 3)"
proof -
  let ?src = "[0x01020304, 0x11121314, 0x21222324, 0x31323334, 0x41424344, 0x51525354,
              0x61626364, 0x71727374, 0x81828384] :: u32 list"
  have g: "gather_window 0 ?src 3 9 3 =
      Inr [of_lanes32 [0x01020304, 0x11121314, 0x21222324, 0x31323334],
           of_lanes32 [0x41424344, 0x51525354, 0x61626364, 0x71727374]]"
    by (simp add: gather_interior)
  have k: "avx_kernels (replicate 7 (Finite False 1 0)) 0 0 (replicate (nat HALF_KERNEL) [])
      = Inr (replicate 3 (replicate 8 (Finite False 1 0)))"
    by (simp add: avx_kernels.simps blur_consts rbind_def array_get_def array_set_def
        mm256_setr_m128_def mm_set1_ps_def eval_nat_numeral)
  show ?thesis
    using avx_step_out_of_bounds [OF g k, of binary32_fpu "[0, 0, 0, 0, 0, 0, 0, 0, 0]" 1 0]
    by simp
qed

section \<open>Neither back end returns an image\<close>

text \<open>
  Claim C1 fails on the code. For \<open>width\<close> and \<open>height\<close> at least 7 and buffers of exactly
  \<open>width * height\<close> pixels, \<^verbatim>\<open>blur_impl_sse2\<close> stops in its first pass at the read of the
  pixel after the source buffer, and \<^verbatim>\<open>blur_impl_avx\<close> stops at its first output pixel with
  the subscript 3 of \<^verbatim>\<open>kernels\<close>. So no blurred image ends up in \<^verbatim>\<open>src\<close>.
\<close>

theorem blur_stops_with_error:
  assumes "7 \<le> width" "7 \<le> height"
    and "int (length src) = width * height" "int (length dst) = width * height"
  shows "blur_impl_sse2 F L u src dst width height sigma
           = Inl (ReadOutOfBounds (width * height))
         \<and> blur_impl_avx F L u src dst width height sigma
           = Inl (ArrayOutOfBounds ''kernels'' 3)"
proof -
  obtain kern where k: "prepare_kernel F L sigma = Inr kern"
    using prepare_kernel_total [of F L sigma] by blast
  note l = prepare_kernel_length [OF k]
  have "49 \<le> width * height"
    using mult_mono [of 7 width 7 height] assms(1,2) by simp
  then have n: "4 \<le> length src" using assms(3) by linarith
  have a: "blur_impl_horizontal_pass_avx F u src dst kern width height
             = Inl (ArrayOutOfBounds ''kernels'' 3)"
    using assms(1,2) n l by (intro avx_pass_fails) simp_all
  have s: "blur_impl_horizontal_pass_sse2 F u src dst kern width height
           = Inl (ReadOutOfBounds (width * height))"
    using assms by (intro sse2_pass_fails) simp_all
  show ?thesis
    by (simp add: blur_impl_sse2_def blur_impl_avx_def k rbind_def a s)
qed

theorem blur_stops_with_error_witness:
  "\<forall>L sigma.
     blur_impl_sse2 binary32_fpu L 0 (replicate 49 0xFF0000FF) (replicate 49 0) 7 7 sigma
       = Inl (ReadOutOfBounds 49)
     \<and> blur_impl_avx binary32_fpu L 0 (replicate 49 0xFF0000FF) (replicate 49 0) 7 7 sigma
       = Inl (ArrayOutOfBounds ''kernels'' 3)"
proof (intro allI)
  fix L :: "(binary32, 'd) cmath" and sigma
  show "blur_impl_sse2 binary32_fpu L 0 (replicate 49 0xFF0000FF) (replicate 49 0) 7 7 sigma
       = Inl (ReadOutOfBounds 49)
     \<and> blur_impl_avx binary32_fpu L 0 (replicate 49 0xFF0000FF) (replicate 49 0) 7 7 sigma
       = Inl (ArrayOutOfBounds ''kernels'' 3)"
    using blur_stops_with_error
      [of 7 7 "replicate 49 0xFF0000FF" "replicate 49 0" binary32_fpu L 0 sigma]
    by simp
qed

section \<open>The box filter in binary32\<close>

lemma one_seventh:
  "f_div binary32_fpu (f_of_int binary32_fpu 1) (f_of_int binary32_fpu KERNEL_SIZE)
     = Finite False 9586981 (- 26)"
  by code_simp

text \<open>The sums of 7 channels are the numbers from 0 to 1785; each is checked.\<close>

lemma scaled_0: "list_all scaled_ok [0..255]" by code_simp
lemma scaled_1: "list_all scaled_ok [256..511]" by code_simp
lemma scaled_2: "list_all scaled_ok [512..767]" by code_simp
lemma scaled_3: "list_all scaled_ok [768..1023]" by code_simp
lemma scaled_4: "list_all scaled_ok [1024..1279]" by code_simp
lemma scaled_5: "list_all scaled_ok [1280..1535]" by code_simp
lemma scaled_6: "list_all scaled_ok [1536..1785]" by code_simp

lemma scaled_all:
  assumes "0 \<le> s" "s \<le> 1785"
  shows "scaled_ok s"
proof -
  from assms have "s \<in> set [0..255] \<or> s \<in> set [256..511] \<or> s \<in> set [512..767]
      \<or> s \<in> set [768..1023] \<or> s \<in> set [1024..1279] \<or> s \<in> set [1280..1535]
      \<or> s \<in> set [1536..1785]"
    unfolding set_upto atLeastAtMost_iff by arith
  with scaled_0 scaled_1 scaled_2 scaled_3 scaled_4 scaled_5 scaled_6 show ?thesis
    unfolding list_all_iff by blast
qed


lemma channel_sum_bounds: "0 \<le> channel_sum ps k \<and> channel_sum ps k \<le> 255 * int (length ps)"
proof (induction ps)
  case Nil
  show ?case by (simp add: channel_sum_def)
next
  case (Cons p ps)
  have "uint (channel p k) < 256"
    using unsigned_less [of "channel p k", where 'a = int] by simp
  with Cons show ?case by (simp add: channel_sum_def algebra_simps)
qed

lemma clamp_small:
  assumes "0 \<le> q" "q \<le> 255"
  shows "clamp_u8 (word_of_int q) = word_of_int q"
proof -
  have "sint (word_of_int q :: u32) = q"
    using assms by (simp add: signed_of_int signed_take_bit_int_eq_self)
  then show ?thesis
    using assms by (simp add: clamp_u8_def unsigned_of_int take_bit_int_eq_self)
qed

text \<open>
  With binary32 arithmetic the box filter of one channel over a window of 7 pixels is the
  integer nearest to a seventh of the sum of the channel: the error of the constant and the
  rounding of the product never carry the result over a half. The saturation never applies.
\<close>

lemma box_channel_nearest:
  assumes "length ps = 7"
  shows "box_channel binary32_fpu ps k = word_of_int ((channel_sum ps k + 3) div 7)"
proof -
  from channel_sum_bounds [of ps k] assms
  have b: "0 \<le> channel_sum ps k" "channel_sum ps k \<le> 1785" by simp_all
  then have q: "0 \<le> (channel_sum ps k + 3) div 7" "(channel_sum ps k + 3) div 7 \<le> 255"
    by simp_all
  from scaled_all [OF b]
  have "f_to_int32 binary32_fpu (f_mul binary32_fpu (f_of_int binary32_fpu (channel_sum ps k))
          (Finite False 9586981 (- 26))) = word_of_int ((channel_sum ps k + 3) div 7)"
    by (simp add: scaled_ok_def binary32_fpu_def)
  then show ?thesis
    by (simp add: box_channel_def one_seventh clamp_small [OF q])
qed

theorem box_channel_binary32:
  assumes "length ps = 7"
  shows "box_channel binary32_fpu ps k = word_of_int ((channel_sum ps k + 3) div 7)"
  using assms by (rule box_channel_nearest)

theorem box_channel_binary32_witness:
  "box_channel binary32_fpu
     [0x01020304, 0x11121314, 0x21222324, 0x31323334, 0x41424344, 0x51525354, 0x61626364] 0
   = 0x34"
  using box_channel_binary32
    [of "[0x01020304, 0x11121314, 0x21222324, 0x31323334, 0x41424344, 0x51525354, 0x61626364]" 0]
  by (simp add: channel_sum_def channel_def)

text \<open>A window of 7 equal pixels is filtered to that pixel.\<close>

lemma box_pixel_seven_equal: "box_pixel binary32_fpu [p, p, p, p, p, p, p] = p"
proof -
  have "box_channel binary32_fpu [p, p, p, p, p, p, p] k = channel p k" for k
    by (simp add: box_channel_nearest channel_sum_def)
  then show ?thesis
    by (simp add: box_pixel_def)
qed

theorem box_pixel_flat: "box_pixel binary32_fpu [p, p, p, p, p, p, p] = p"
  by (rule box_pixel_seven_equal)

section \<open>The SSE2 pass as a whole\<close>

text \<open>
  The reads past the image are the only obstacle for the SSE2 back end: with source buffers
  two pixels longer than the image, a pass returns, and so does \<^verbatim>\<open>blur_impl_sse2\<close>.
\<close>

lemma dst_index_inj:
  assumes "0 \<le> r" "r < h" "0 \<le> r'" "r' < h" "h * c + r = h * c' + (r' :: int)"
  shows "r = r' \<and> c = c'"
proof -
  have "r = (h * c + r) mod h" using assms(1,2) by simp
  also have "\<dots> = (h * c' + r') mod h" by (simp only: assms(5))
  also have "\<dots> = r'" using assms(3,4) by simp
  finally have r: "r = r'" .
  with assms have "h * c = h * c'" by simp
  with assms(1,2) have "c = c'" by simp
  with r show ?thesis by simp
qed

lemma sse2_columns_content:
  assumes "7 \<le> width" "0 \<le> column" "column \<le> width"
    and "0 \<le> row * width" "row * width + width + 2 \<le> int (length src)"
    and "0 \<le> row" "row < height" "height * width \<le> int (length dst)"
  shows "\<exists>dst'. sse2_columns F u src width height row column (row * width + column, dst)
              = Inr (row * width + width, dst')
           \<and> length dst' = length dst
           \<and> (\<forall>c. column \<le> c \<and> c < width \<longrightarrow>
                  dst' ! nat (height * c + row) = sse2_output F u src width row c)
           \<and> (\<forall>i. (\<forall>c. column \<le> c \<and> c < width \<longrightarrow> i \<noteq> nat (height * c + row)) \<longrightarrow>
                  dst' ! i = dst ! i)"
  using assms(2,3,8)
proof (induction "nat (width - column)" arbitrary: column dst)
  case 0
  then have "column = width" by simp
  then show ?case by (auto simp: sse2_columns.simps)
next
  case (Suc n)
  then have c: "column < width" by linarith
  from gather_ok_slack [OF assms(1) Suc.prems(1) c assms(4,5)] obtain rgbaIn where
    g: "gather_window u src (row * width + column) width column = Inr rgbaIn" by blast
  note i = dst_index_ok [OF Suc.prems(1) c assms(6,7) Suc.prems(3)]
  let ?px = "sse2_output F u src width row column"
  let ?dst = "dst[nat (height * column + row) := ?px]"
  have s: "sse2_step F u src (row * width + column) dst width height row column = Inr ?dst"
    using sse2_step_result [OF g i] by (simp add: sse2_output_def g)
  have "\<exists>dst'. sse2_columns F u src width height row (column + 1)
                  (row * width + (column + 1), ?dst) = Inr (row * width + width, dst')
           \<and> length dst' = length ?dst
           \<and> (\<forall>c. column + 1 \<le> c \<and> c < width \<longrightarrow>
                  dst' ! nat (height * c + row) = sse2_output F u src width row c)
           \<and> (\<forall>i. (\<forall>c. column + 1 \<le> c \<and> c < width \<longrightarrow> i \<noteq> nat (height * c + row)) \<longrightarrow>
                  dst' ! i = ?dst ! i)"
    using Suc.hyps(2) c Suc.prems by (intro Suc.hyps(1)) simp_all
  then obtain dst' where d:
    "sse2_columns F u src width height row (column + 1) (row * width + (column + 1), ?dst)
       = Inr (row * width + width, dst')"
    "length dst' = length dst"
    "\<And>c. column + 1 \<le> c \<Longrightarrow> c < width \<Longrightarrow>
        dst' ! nat (height * c + row) = sse2_output F u src width row c"
    "\<And>i. (\<And>c. column + 1 \<le> c \<Longrightarrow> c < width \<Longrightarrow> i \<noteq> nat (height * c + row)) \<Longrightarrow>
        dst' ! i = ?dst ! i"
    by auto
  have run: "sse2_columns F u src width height row column (row * width + column, dst)
      = Inr (row * width + width, dst')"
    using c s d(1) by (subst sse2_columns.simps) (simp add: rbind_def add.assoc)
  have here: "dst' ! nat (height * column + row) = ?px"
  proof -
    have "nat (height * column + row) \<noteq> nat (height * c + row)" if "column + 1 \<le> c" "c < width" for c
    proof
      assume e: "nat (height * column + row) = nat (height * c + row)"
      have "0 \<le> height * c + row"
        using that Suc.prems(1) assms(6,7) by simp
      with e i(1) have "height * column + row = height * c + row" by linarith
      with dst_index_inj [OF assms(6,7) assms(6,7), of column c] that show False by simp
    qed
    then have "dst' ! nat (height * column + row) = ?dst ! nat (height * column + row)"
      by (intro d(4)) simp
    with i show ?thesis by simp
  qed
  have content: "dst' ! nat (height * c + row) = sse2_output F u src width row c"
    if "column \<le> c" "c < width" for c
  proof (cases "c = column")
    case True with here show ?thesis by simp
  next
    case False with that d(3) [of c] show ?thesis by simp
  qed
  have frame: "dst' ! i = dst ! i"
    if "\<And>c. column \<le> c \<Longrightarrow> c < width \<Longrightarrow> i \<noteq> nat (height * c + row)" for i
  proof -
    have "dst' ! i = ?dst ! i" using that by (intro d(4)) simp
    moreover have "i \<noteq> nat (height * column + row)" using that [of column] c by simp
    ultimately show ?thesis by simp
  qed
  from run d(2) content frame show ?case by blast
qed


lemma sse2_rows_content:
  assumes "7 \<le> width" "0 \<le> row" "row \<le> height"
    and "width * height + 2 \<le> int (length src)" "height * width \<le> int (length dst)"
  shows "\<exists>dst'. sse2_rows F u src width height row (row * width, dst)
              = Inr (height * width, dst')
           \<and> length dst' = length dst
           \<and> (\<forall>r c. row \<le> r \<and> r < height \<and> 0 \<le> c \<and> c < width \<longrightarrow>
                  dst' ! nat (height * c + r) = sse2_output F u src width r c)
           \<and> (\<forall>i. (\<forall>r c. row \<le> r \<and> r < height \<and> 0 \<le> c \<and> c < width \<longrightarrow>
                        i \<noteq> nat (height * c + r)) \<longrightarrow>
                  dst' ! i = dst ! i)"
  using assms(2,3,5)
proof (induction "nat (height - row)" arbitrary: row dst)
  case 0
  then have "row = height" by simp
  then show ?case by (auto simp: sse2_rows.simps)
next
  case (Suc n)
  then have r: "row < height" by linarith
  have "(row + 1) * width \<le> height * width"
    using r assms(1) by (intro mult_right_mono) simp_all
  then have b: "0 \<le> row * width" "row * width + width + 2 \<le> int (length src)"
    using assms(1,4) Suc.prems by (simp_all add: algebra_simps)
  from sse2_columns_content [OF assms(1) _ _ b Suc.prems(1) r Suc.prems(3), of 0 F u] assms(1)
  obtain dst1 where c:
    "sse2_columns F u src width height row 0 (row * width, dst) = Inr (row * width + width, dst1)"
    "length dst1 = length dst"
    "\<And>c. 0 \<le> c \<Longrightarrow> c < width \<Longrightarrow>
        dst1 ! nat (height * c + row) = sse2_output F u src width row c"
    "\<And>i. (\<And>c. 0 \<le> c \<Longrightarrow> c < width \<Longrightarrow> i \<noteq> nat (height * c + row)) \<Longrightarrow>
        dst1 ! i = dst ! i"
    by auto
  have "\<exists>dst'. sse2_rows F u src width height (row + 1) ((row + 1) * width, dst1)
              = Inr (height * width, dst')
           \<and> length dst' = length dst1
           \<and> (\<forall>r c. row + 1 \<le> r \<and> r < height \<and> 0 \<le> c \<and> c < width \<longrightarrow>
                  dst' ! nat (height * c + r) = sse2_output F u src width r c)
           \<and> (\<forall>i. (\<forall>r c. row + 1 \<le> r \<and> r < height \<and> 0 \<le> c \<and> c < width \<longrightarrow>
                        i \<noteq> nat (height * c + r)) \<longrightarrow>
                  dst' ! i = dst1 ! i)"
    using Suc.hyps(2) r Suc.prems c(2) by (intro Suc.hyps(1)) simp_all
  then obtain dst' where d:
    "sse2_rows F u src width height (row + 1) ((row + 1) * width, dst1) = Inr (height * width, dst')"
    "length dst' = length dst"
    "\<And>r c. row + 1 \<le> r \<Longrightarrow> r < height \<Longrightarrow> 0 \<le> c \<Longrightarrow> c < width \<Longrightarrow>
        dst' ! nat (height * c + r) = sse2_output F u src width r c"
    "\<And>i. (\<And>r c. row + 1 \<le> r \<Longrightarrow> r < height \<Longrightarrow> 0 \<le> c \<Longrightarrow> c < width \<Longrightarrow>
              i \<noteq> nat (height * c + r)) \<Longrightarrow> dst' ! i = dst1 ! i"
    using c(2) by auto
  have run: "sse2_rows F u src width height row (row * width, dst) = Inr (height * width, dst')"
    using r c(1) d(1) by (subst sse2_rows.simps) (simp add: rbind_def algebra_simps)
  have apart: "nat (height * c + row) \<noteq> nat (height * c' + r')"
    if "0 \<le> c" "row + 1 \<le> r'" "r' < height" "0 \<le> c'" for c c' r'
  proof
    assume e: "nat (height * c + row) = nat (height * c' + r')"
    have "0 \<le> height * c + row" "0 \<le> height * c' + r'"
      using that Suc.prems(1) r by simp_all
    with e have "height * c + row = height * c' + r'" by linarith
    from dst_index_inj [OF Suc.prems(1) r _ that(3) this] that Suc.prems(1) show False by simp
  qed
  have content: "dst' ! nat (height * c + r') = sse2_output F u src width r' c"
    if "row \<le> r'" "r' < height" "0 \<le> c" "c < width" for r' c
  proof (cases "r' = row")
    case True
    have "dst' ! nat (height * c + row) = dst1 ! nat (height * c + row)"
      using apart [OF that(3)] by (intro d(4)) simp
    with c(3) [OF that(3,4)] True show ?thesis by simp
  next
    case False with that d(3) [of r' c] show ?thesis by simp
  qed
  have frame: "dst' ! i = dst ! i"
    if "\<And>r c. row \<le> r \<Longrightarrow> r < height \<Longrightarrow> 0 \<le> c \<Longrightarrow> c < width \<Longrightarrow> i \<noteq> nat (height * c + r)"
    for i
  proof -
    have "dst' ! i = dst1 ! i" using that by (intro d(4)) simp
    moreover have "dst1 ! i = dst ! i" using that [of row] r by (intro c(4)) simp
    ultimately show ?thesis by simp
  qed
  from run d(2) content frame show ?case by blast
qed

lemma sse2_pass_content:
  assumes "7 \<le> width" "1 \<le> height"
    and "width * height + 2 \<le> int (length src)" "width * height \<le> int (length dst)"
  shows "\<exists>dst'. blur_impl_horizontal_pass_sse2 F u src dst kern width height = Inr dst'
           \<and> length dst' = length dst
           \<and> (\<forall>row column. 0 \<le> row \<and> row < height \<and> 0 \<le> column \<and> column < width \<longrightarrow>
                  dst' ! nat (height * column + row) = sse2_output F u src width row column)
           \<and> (\<forall>i. nat (width * height) \<le> i \<longrightarrow> dst' ! i = dst ! i)"
proof -
  from sse2_rows_content [where row = 0 and dst = dst and F = F and u = u,
      OF assms(1) _ _ assms(3)] assms(2,4)
  obtain dst' where d:
    "sse2_rows F u src width height 0 (0, dst) = Inr (height * width, dst')"
    "length dst' = length dst"
    "\<And>r c. 0 \<le> r \<Longrightarrow> r < height \<Longrightarrow> 0 \<le> c \<Longrightarrow> c < width \<Longrightarrow>
        dst' ! nat (height * c + r) = sse2_output F u src width r c"
    "\<And>i. (\<And>r c. 0 \<le> r \<Longrightarrow> r < height \<Longrightarrow> 0 \<le> c \<Longrightarrow> c < width \<Longrightarrow>
              i \<noteq> nat (height * c + r)) \<Longrightarrow> dst' ! i = dst ! i"
    by (auto simp: mult.commute)
  have "dst' ! i = dst ! i" if "nat (width * height) \<le> i" for i
  proof (rule d(4))
    fix r c assume "0 \<le> r" "r < height" "0 \<le> (c :: int)" "c < width"
    from dst_index_ok [OF this(3,4,1,2), of "height * width"] that
    show "i \<noteq> nat (height * c + r)" by (simp add: mult.commute)
  qed
  with d(1,2,3) show ?thesis
    by (simp add: blur_impl_horizontal_pass_sse2_def rbind_def)
qed

lemma blur_impl_sse2_content:
  assumes "7 \<le> width" "7 \<le> height"
    and "width * height + 2 \<le> int (length src)" "width * height + 2 \<le> int (length dst)"
  shows "\<exists>src' dst'. blur_impl_sse2 F L u src dst width height sigma = Inr (src', dst')
           \<and> length src' = length src \<and> length dst' = length dst
           \<and> (\<forall>y x. 0 \<le> y \<and> y < height \<and> 0 \<le> x \<and> x < width \<longrightarrow>
                  dst' ! nat (height * x + y) = sse2_output F u src width y x)
           \<and> (\<forall>y x. 0 \<le> y \<and> y < height \<and> 0 \<le> x \<and> x < width \<longrightarrow>
                  src' ! nat (width * y + x) = sse2_output F u dst' height x y)"
proof -
  obtain kern where k: "prepare_kernel F L sigma = Inr kern"
    using prepare_kernel_total [of F L sigma] by blast
  from sse2_pass_content [where height = height and dst = dst and F = F and u = u
      and kern = kern, OF assms(1) _ assms(3)] assms(2,4)
  obtain dst' where d:
    "blur_impl_horizontal_pass_sse2 F u src dst kern width height = Inr dst'"
    "length dst' = length dst"
    "\<And>row column. 0 \<le> row \<Longrightarrow> row < height \<Longrightarrow> 0 \<le> column \<Longrightarrow> column < width \<Longrightarrow>
        dst' ! nat (height * column + row) = sse2_output F u src width row column"
    by auto
  have "height * width + 2 \<le> int (length dst')" "height * width \<le> int (length src)"
    using assms(3,4) d(2) by (simp_all add: mult.commute)
  from sse2_pass_content [where height = width and F = F and u = u and kern = kern,
      OF assms(2) _ this] assms(1)
  obtain src' where s:
    "blur_impl_horizontal_pass_sse2 F u dst' src kern height width = Inr src'"
    "length src' = length src"
    "\<And>row column. 0 \<le> row \<Longrightarrow> row < width \<Longrightarrow> 0 \<le> column \<Longrightarrow> column < height \<Longrightarrow>
        src' ! nat (width * column + row) = sse2_output F u dst' height row column"
    by auto
  have "blur_impl_sse2 F L u src dst width height sigma = Inr (src', dst')"
    by (simp add: blur_impl_sse2_def k d(1) s(1) rbind_def)
  with d(2,3) s(2,3) show ?thesis by simp
qed






text \<open>
  Both passes. For \<open>width\<close> and \<open>height\<close> at least 7 and buffers of at least
  \<open>width * height + 2\<close> pixels, \<^verbatim>\<open>blur_impl_sse2\<close> returns. The scratch buffer holds the
  filtered rows, transposed: the pixel of row \<open>y\<close> and column \<open>x\<close> is at \<open>height * x + y\<close>.
  The source buffer holds the result in the orientation of the image: the pixel of row \<open>y\<close>
  and column \<open>x\<close> is at \<open>width * y + x\<close>, and it is the box filter of the window of row \<open>x\<close>
  and column \<open>y\<close> of the scratch buffer, read as an image of width \<open>height\<close>.
\<close>

theorem blur_impl_sse2_with_slack:
  assumes "7 \<le> width" "7 \<le> height"
    and "width * height + 2 \<le> int (length src)" "width * height + 2 \<le> int (length dst)"
  shows "\<exists>src' dst'. blur_impl_sse2 F L u src dst width height sigma = Inr (src', dst')
           \<and> length src' = length src \<and> length dst' = length dst
           \<and> (\<forall>y x. 0 \<le> y \<and> y < height \<and> 0 \<le> x \<and> x < width \<longrightarrow>
                  dst' ! nat (height * x + y) = sse2_output F u src width y x)
           \<and> (\<forall>y x. 0 \<le> y \<and> y < height \<and> 0 \<le> x \<and> x < width \<longrightarrow>
                  src' ! nat (width * y + x) = sse2_output F u dst' height x y)"
  using assms by (rule blur_impl_sse2_content)

theorem blur_impl_sse2_with_slack_witness:
  "\<forall>L sigma. \<exists>src' dst'.
     blur_impl_sse2 binary32_fpu L 0 (replicate 51 0xFF0000FF) (replicate 51 0) 7 7 sigma
       = Inr (src', dst')
     \<and> length src' = 51 \<and> length dst' = 51 \<and> dst' ! 0 = 0xFF0000FF \<and> src' ! 0 = 0xFF0000FF"
proof (intro allI)
  fix L :: "(binary32, 'd) cmath" and sigma
  let ?src = "replicate 51 0xFF0000FF :: u32 list"
  from blur_impl_sse2_with_slack [of 7 7 ?src "replicate 51 0" binary32_fpu L 0 sigma]
  obtain src' dst' where r:
    "blur_impl_sse2 binary32_fpu L 0 ?src (replicate 51 0) 7 7 sigma = Inr (src', dst')"
    "length src' = 51" "length dst' = 51"
    "\<And>y x. 0 \<le> y \<Longrightarrow> y < 7 \<Longrightarrow> 0 \<le> x \<Longrightarrow> x < 7 \<Longrightarrow>
       dst' ! nat (7 * x + y) = sse2_output binary32_fpu 0 ?src 7 y x"
    "\<And>y x. 0 \<le> y \<Longrightarrow> y < 7 \<Longrightarrow> 0 \<le> x \<Longrightarrow> x < 7 \<Longrightarrow>
       src' ! nat (7 * y + x) = sse2_output binary32_fpu 0 dst' 7 x y"
    by auto
  have o: "sse2_output binary32_fpu 0 ?src 7 y 0 = 0xFF0000FF" if "y \<in> {0, 1, 2, 3}" for y
    using that
    by (auto simp: sse2_output_def gather_left0 window_regs box_pixel_seven_equal)
  have d: "dst' ! 0 = 0xFF0000FF" "dst' ! 1 = 0xFF0000FF" "dst' ! 2 = 0xFF0000FF"
    "dst' ! 3 = 0xFF0000FF"
    using r(4) [of 0 0] r(4) [of 1 0] r(4) [of 2 0] r(4) [of 3 0] o by simp_all
  have "src' ! 0 = sse2_output binary32_fpu 0 dst' 7 0 0"
    using r(5) [of 0 0] by simp
  also have "\<dots> = 0xFF0000FF"
    using r(3) d
    by (simp add: sse2_output_def gather_left0 window_regs box_pixel_seven_equal)
  finally show "\<exists>src' dst'.
     blur_impl_sse2 binary32_fpu L 0 ?src (replicate 51 0) 7 7 sigma = Inr (src', dst')
     \<and> length src' = 51 \<and> length dst' = 51 \<and> dst' ! 0 = 0xFF0000FF \<and> src' ! 0 = 0xFF0000FF"
    using r(1,2,3) d(1) by simp
qed

section \<open>More on the defects\<close>

text \<open>
  The column \<open>width - 3\<close> is not a right border column for the code
  (\<^verbatim>\<open>column > width - HALF_KERNEL\<close>). Where the buffer is long enough for its two loads, its
  window is the 7 pixels from column \<open>width - 6\<close> on, and the last of them is the pixel at
  \<open>row * width + width\<close>: the first pixel of the next row, or of what follows the image.
\<close>

theorem column_before_right_border_reads_next_row:
  assumes "7 \<le> width" "0 \<le> row" "row < height" "width * height + 2 \<le> int (length src)"
  shows "\<exists>rgbaIn. gather_window u src (row * width + (width - 3)) width (width - 3) = Inr rgbaIn
           \<and> window rgbaIn = map (\<lambda>i. src ! nat (row * width + (width - 3) + (i - 3))) [0..6]
           \<and> window rgbaIn ! 6 = src ! nat (row * width + width)"
proof -
  have "width * height \<le> int (length src)" using assms(4) by simp
  from row_in_buffer [OF assms(2,3) _ this] assms(1,4)
  have b: "0 \<le> row * width" "row * width + width \<le> int (length src)" by simp_all
  have "(row + 1) * width \<le> height * width"
    using assms by (intro mult_right_mono) simp_all
  then have "row * width + width + 2 \<le> int (length src)"
    using assms(4) by (simp add: algebra_simps)
  with b assms(1) show ?thesis
    by (simp add: gather_interior window_regs upto_0_6 algebra_simps)
qed

theorem column_before_right_border_reads_next_row_witness:
  "\<exists>rgbaIn. gather_window 0 [10, 11, 12, 13, 14, 15, 16, 20, 21, 22, 23, 24, 25, 26, 0, 0] 4 7 4
       = Inr rgbaIn
     \<and> window rgbaIn = [11, 12, 13, 14, 15, 16, 20]"
  using column_before_right_border_reads_next_row
    [of 7 0 2 "[10, 11, 12, 13, 14, 15, 16, 20, 21, 22, 23, 24, 25, 26, 0, 0]" 0]
  by (simp add: upto_0_6) blast

lemma avx_pass_short_source:
  assumes "1 \<le> width" "1 \<le> height" "length src < 4" "length kern = 7"
  shows "blur_impl_horizontal_pass_avx F u src dst kern width height = Inl (ReadOutOfBounds 3)"
proof -
  from avx_kernels_ok [OF assms(4)] obtain kernels where
    k: "avx_kernels kern 0 0 (replicate (nat HALF_KERNEL) []) = Inr kernels" by blast
  have "gather_window u src 0 width 0 = Inl (ReadOutOfBounds 3)"
    using assms(3) by (simp add: gather_simps)
  then have "avx_step F u kern kernels src 0 dst width height 0 0 = Inl (ReadOutOfBounds 3)"
    by (simp add: avx_step_def rbind_def)
  then have "avx_rows F u kern kernels src width height 0 (0, dst) = Inl (ReadOutOfBounds 3)"
    using assms(1,2)
    by (subst avx_rows.simps, subst avx_columns.simps) (simp add: rbind_def)
  then show ?thesis
    by (simp add: blur_impl_horizontal_pass_avx_def k rbind_def)
qed

text \<open>
  \<^verbatim>\<open>blur_impl_avx\<close> returns no image for any \<open>width\<close> and \<open>height\<close> of at least 1,
  whatever the buffers are: it stops at its first output pixel, with the subscript of
  \<^verbatim>\<open>kernels\<close>, or before it with a read outside a source buffer of fewer than 4 pixels.
\<close>

theorem blur_impl_avx_never_returns:
  assumes "1 \<le> width" "1 \<le> height"
  shows "\<exists>e. blur_impl_avx F L u src dst width height sigma = Inl e"
proof -
  obtain kern where k: "prepare_kernel F L sigma = Inr kern"
    using prepare_kernel_total [of F L sigma] by blast
  note l = prepare_kernel_length [OF k]
  have "\<exists>e. blur_impl_horizontal_pass_avx F u src dst kern width height = Inl e"
  proof (cases "4 \<le> length src")
    case True
    from avx_pass_fails [OF assms True l] show ?thesis by blast
  next
    case False
    then have "length src < 4" by simp
    from avx_pass_short_source [OF assms this l] show ?thesis by blast
  qed
  then show ?thesis
    by (auto simp: blur_impl_avx_def k rbind_def)
qed

theorem blur_impl_avx_never_returns_witness:
  "\<forall>L sigma. \<exists>e. blur_impl_avx binary32_fpu L 0 [5] [0] 1 1 sigma = Inl e"
proof (intro allI)
  fix L :: "(binary32, 'd) cmath" and sigma
  show "\<exists>e. blur_impl_avx binary32_fpu L 0 [5] [0] 1 1 sigma = Inl e"
    using blur_impl_avx_never_returns [of 1 1 binary32_fpu L 0 "[5]" "[0]" sigma] by simp
qed

section \<open>Rounding errors of binary32\<close>

text \<open>
  The error of one rounding: at most \<open>2 ^ - 24\<close> of the number that is rounded, or
  \<open>2 ^ - 150\<close> where the result is subnormal. It follows that the sum of non-negative floats
  accumulated in single precision differs from their sum by at most \<open>n * 2 ^ - 23\<close> of it,
  and that 7 non-negative floats divided by their positive accumulated total add up to 1
  within \<open>10 ^ - 5\<close>.
\<close>

lemma divmod_real:
  assumes "0 < k"
  shows "\<exists>q r h. m = q * (2 * h) + r \<and> 0 \<le> r \<and> r < 2 * h \<and> 0 < h \<and> q = m div 2 ^ k
     \<and> r = m mod 2 ^ k \<and> h = (2::int) ^ (k - 1) \<and> (2::int) ^ k = 2 * h"
proof -
  define h where "h = (2::int) ^ (k - 1)"
  have p: "(2::int) ^ k = 2 * h" using assms by (simp add: h_def power_eq_if)
  have hpos: "0 < h" by (simp add: h_def)
  have "m = (m div 2 ^ k) * 2 ^ k + m mod 2 ^ k" by (rule div_mult_mod_eq [symmetric])
  then have m: "m = (m div 2 ^ k) * (2 * h) + m mod 2 ^ k" by (simp only: p)
  have "0 \<le> m mod 2 ^ k" "m mod 2 ^ k < 2 ^ k" by simp_all
  then have r: "0 \<le> m mod 2 ^ k" "m mod 2 ^ k < 2 * h" by (simp_all only: p)
  from m r hpos p h_def show ?thesis by blast
qed

lemma half_cases:
  fixes q r h t :: real
  assumes "0 < h" "0 \<le> r" "0 \<le> t" "r + t < 2 * h"
  shows "h \<le> r + t \<Longrightarrow> \<bar>(q + 1) - (q + (r + t) / (2 * h))\<bar> \<le> 1 / 2"
    and "r + t \<le> h \<Longrightarrow> \<bar>q - (q + (r + t) / (2 * h))\<bar> \<le> 1 / 2"
proof -
  define x where "x = (r + t) / (2 * h)"
  have x: "0 \<le> x" "x < 1" using assms by (simp_all add: x_def field_simps)
  { assume "h \<le> r + t"
    then have "1 / 2 \<le> x" using assms(1) by (simp add: x_def field_simps)
    with x show "\<bar>(q + 1) - (q + (r + t) / (2 * h))\<bar> \<le> 1 / 2"
      unfolding x_def [symmetric] by simp }
  { assume "r + t \<le> h"
    then have "x \<le> 1 / 2" using assms(1) by (simp add: x_def field_simps)
    with x show "\<bar>q - (q + (r + t) / (2 * h))\<bar> \<le> 1 / 2"
      unfolding x_def [symmetric] by simp }
qed

lemma rne_shift_error:
  fixes t :: real
  assumes "0 \<le> m" "0 \<le> t" "t < 1" "sticky \<longleftrightarrow> t \<noteq> 0" "0 < k"
  shows "\<bar>real_of_int (rne_shift m k sticky) - (real_of_int m + t) / 2 ^ k\<bar> \<le> 1 / 2"
proof -
  from divmod_real [OF assms(5), of m] obtain q r h where
    m: "m = q * (2 * h) + r" and r: "0 \<le> r" "r < 2 * h" and hpos: "0 < h"
    and q_def: "q = m div 2 ^ k" and r_def: "r = m mod 2 ^ k" and h_def: "h = (2::int) ^ (k - 1)"
    and p: "(2::int) ^ k = 2 * h" by blast
  have rm: "real_of_int m = real_of_int q * (2 * real_of_int h) + real_of_int r"
    by (subst m) simp
  have "real_of_int (2 ^ k) = real_of_int (2 * h)" by (simp only: p)
  then have P: "(2::real) ^ k = 2 * real_of_int h" by simp
  have hp: "0 < real_of_int h" using hpos by simp
  have e: "(real_of_int m + t) / 2 ^ k = real_of_int q + (real_of_int r + t) / (2 * real_of_int h)"
    unfolding P rm using hp by (simp add: field_simps)
  have rl: "real_of_int r + t < 2 * real_of_int h"
  proof -
    from r(2) have "r + 1 \<le> 2 * h" by simp
    then have "real_of_int (r + 1) \<le> real_of_int (2 * h)" by (simp only: of_int_le_iff)
    with assms(3) show ?thesis by simp
  qed
  have r0: "0 \<le> real_of_int r" using r(1) by simp
  note hc = half_cases [OF hp r0 assms(2) rl, of "real_of_int q"]
  show ?thesis
  proof (cases "h < r \<or> (r = h \<and> (sticky \<or> odd q))")
    case True
    then have v: "rne_shift m k sticky = q + 1"
      using assms(5) unfolding rne_shift_def Let_def q_def r_def h_def by simp
    from True have "h \<le> r" by auto
    then have "real_of_int h \<le> real_of_int r + t" using assms(2) by simp
    from hc(1) [OF this] show ?thesis unfolding e v by simp
  next
    case False
    then have v: "rne_shift m k sticky = q"
      using assms(5) unfolding rne_shift_def Let_def q_def r_def h_def by simp
    have "real_of_int r + t \<le> real_of_int h"
    proof (cases "r = h")
      case True
      with False assms(4) show ?thesis by simp
    next
      case ne: False
      with False have "r + 1 \<le> h" by simp
      then have "real_of_int (r + 1) \<le> real_of_int h" by (simp only: of_int_le_iff)
      with assms(3) show ?thesis by simp
    qed
    from hc(2) [OF this] show ?thesis unfolding e v by simp
  qed
qed

lemma rne_shift_zero: "rne_shift 0 k False = 0"
  by (simp add: rne_shift_def Let_def)

lemma rne_shift_nonneg: "0 \<le> m \<Longrightarrow> 0 \<le> rne_shift m k sticky"
  by (simp add: rne_shift_def Let_def pos_imp_zdiv_nonneg_iff)

lemma powi_shift: "(2::real) powi (e + int k) = 2 ^ k * 2 powi e"
  by (simp add: power_int_add)

lemma round_binary32_error:
  fixes t :: real
  assumes "0 \<le> m" "0 \<le> t" "t < 1" "sticky \<longleftrightarrow> t \<noteq> 0" "sticky \<longrightarrow> 25 \<le> bitlen m"
  shows "\<exists>m' e'. round_binary32 s m e sticky
             = (if m' \<noteq> 0 \<and> bitlen m' + e' > 128 then Infinity s else Finite s m' e')
      \<and> 0 \<le> m' \<and> m' \<le> 2 ^ 24 \<and> - 149 \<le> e' \<and> (m = 0 \<longrightarrow> m' = 0)
      \<and> \<bar>real_of_int m' * 2 powi e' - (real_of_int m + t) * 2 powi e\<bar>
           \<le> (real_of_int m + t) * 2 powi e / 2 ^ 24 + (if - 149 \<le> e then 0 else 2 powi (- 150))"
proof -
  define k where "k = nat (max (bitlen m - 24) (- 149 - e))"
  define m' where "m' = rne_shift m k sticky"
  define e' where "e' = e + int k"
  define v where "v = (real_of_int m + t) * 2 powi e"
  have v0: "0 \<le> v" using assms(1,2) by (simp add: v_def)
  have rd: "round_binary32 s m e sticky
      = (if m' \<noteq> 0 \<and> bitlen m' + e' > 128 then Infinity s else Finite s m' e')"
    by (simp add: round_binary32_def Let_def k_def m'_def e'_def)
  have nn: "0 \<le> m'" unfolding m'_def using assms(1) by (rule rne_shift_nonneg)
  have ee: "- 149 \<le> e'" unfolding e'_def k_def by linarith
  have z: "m = 0 \<longrightarrow> m' = 0"
  proof
    assume "m = 0"
    with assms(5) have "\<not> sticky" by auto
    with \<open>m = 0\<close> show "m' = 0" by (simp add: m'_def rne_shift_zero)
  qed
  have "m' \<le> 2 ^ 24 \<and> \<bar>real_of_int m' * 2 powi e' - v\<bar>
           \<le> v / 2 ^ 24 + (if - 149 \<le> e then 0 else 2 powi (- 150))"
  proof (cases "k = 0")
    case True
    then have b: "bitlen m \<le> 24" "- 149 \<le> e" unfolding k_def by linarith+
    with assms(5) have "\<not> sticky" by auto
    with assms(4) have t: "t = 0" by simp
    from True have m': "m' = m" "e' = e" by (simp_all add: m'_def e'_def rne_shift_def)
    from b(1) have "m < 2 ^ 24" by (simp add: bitlen_le_iff_power)
    with m' t v0 b(2) show ?thesis by (simp add: v_def)
  next
    case False
    then have k: "0 < k" by simp
    from rne_shift_error [OF assms(1,2,3,4) k]
    have h: "\<bar>real_of_int m' - (real_of_int m + t) / 2 ^ k\<bar> \<le> 1 / 2" by (simp add: m'_def)
    have pe: "(2::real) powi e' = 2 ^ k * 2 powi e" unfolding e'_def by (rule powi_shift)
    have pp: "0 < (2::real) powi e" by simp
    have "real_of_int m' * 2 powi e' - v = (real_of_int m' - (real_of_int m + t) / 2 ^ k) * 2 powi e'"
      unfolding pe v_def by (simp add: field_simps)
    then have "\<bar>real_of_int m' * 2 powi e' - v\<bar>
                 = \<bar>real_of_int m' - (real_of_int m + t) / 2 ^ k\<bar> * 2 powi e'"
      by (simp add: abs_mult)
    also have "\<dots> \<le> 1 / 2 * 2 powi e'"
      using h by (intro mult_right_mono) simp_all
    finally have err: "\<bar>real_of_int m' * 2 powi e' - v\<bar> \<le> 2 powi e' / 2" by simp
    have kb: "bitlen m \<le> 24 + int k" unfolding k_def by linarith
    then have "m < 2 ^ nat (24 + int k)" by (simp add: bitlen_le_iff_power)
    then have "m + 1 \<le> 2 ^ (24 + k)" by (simp add: nat_add_distrib)
    then have "real_of_int (m + 1) \<le> real_of_int (2 ^ (24 + k))" by (simp only: of_int_le_iff)
    then have "real_of_int m + 1 \<le> 2 ^ 24 * 2 ^ k" by (simp add: power_add)
    with assms(3) have "real_of_int m + t < 2 ^ 24 * 2 ^ k" by simp
    then have "(real_of_int m + t) / 2 ^ k < 2 ^ 24" by (simp add: field_simps)
    with h have "real_of_int m' < 2 ^ 24 + 1" by linarith
    then have "real_of_int m' < real_of_int (2 ^ 24 + 1)" by simp
    then have "m' < 2 ^ 24 + 1" by (simp only: of_int_less_iff)
    then have ub: "m' \<le> 2 ^ 24" by simp
    have "2 powi e' / 2 \<le> v / 2 ^ 24 + (if - 149 \<le> e then 0 else 2 powi (- 150))"
    proof (cases "- 149 - e \<le> bitlen m - 24")
      case True
      with k have kk: "int k = bitlen m - 24" unfolding k_def by linarith
      then have "0 < m" using k bitlen_eq_zero_iff [of m] assms(1) by (cases "m = 0") auto
      from bitlen_bounds [OF this] have "2 ^ nat (bitlen m - 1) \<le> m" by simp
      moreover have "nat (bitlen m - 1) = 23 + k" using kk by simp
      ultimately have "2 ^ (23 + k) \<le> m" by simp
      then have "real_of_int (2 ^ (23 + k)) \<le> real_of_int m" by (simp only: of_int_le_iff)
      then have "2 ^ 23 * 2 ^ k \<le> real_of_int m + t" using assms(2) by (simp add: power_add)
      then have "2 ^ 23 * 2 ^ k * 2 powi e \<le> (real_of_int m + t) * 2 powi e"
        using pp by (intro mult_right_mono) simp_all
      then have "2 ^ 23 * 2 powi e' \<le> v" by (simp add: pe v_def mult.assoc)
      then have "2 powi e' / 2 \<le> v / 2 ^ 24" by simp
      then show ?thesis by simp
    next
      case False
      then have "int k = - 149 - e" using k unfolding k_def by linarith
      then have e: "e' = - 149" "\<not> - 149 \<le> e" using k by (simp_all add: e'_def)
      have "(2::real) powi (- 149) / 2 = 2 powi (- 150)" by simp
      with e v0 show ?thesis by simp
    qed
    with err ub show ?thesis by simp
  qed
  with rd nn ee z show ?thesis unfolding v_def by blast
qed

lemma overflow_large:
  assumes "0 \<le> m'" "m' \<noteq> 0" "bitlen m' + e' > 128"
  shows "2 powi 128 \<le> real_of_int m' * 2 powi e'"
proof -
  from assms have "0 < m'" by simp
  from bitlen_bounds [OF this] have "2 ^ nat (bitlen m' - 1) \<le> m'" by simp
  then have "real_of_int (2 ^ nat (bitlen m' - 1)) \<le> real_of_int m'" by (simp only: of_int_le_iff)
  then have "2 ^ nat (bitlen m' - 1) \<le> real_of_int m'" by simp
  moreover have "0 < bitlen m'" using \<open>0 < m'\<close> bitlen_eq_zero_iff [of m'] bitlen_nonneg [of m']
    by linarith
  ultimately have "2 powi (bitlen m' - 1) \<le> real_of_int m'"
    by (simp add: power_int_def)
  then have "2 powi (bitlen m' - 1) * 2 powi e' \<le> real_of_int m' * 2 powi e'"
    by (intro mult_right_mono) simp_all
  then have "2 powi (bitlen m' - 1 + e') \<le> real_of_int m' * 2 powi e'"
    by (simp add: power_int_add)
  moreover have "(2::real) powi 128 \<le> 2 powi (bitlen m' - 1 + e')"
    using assms(3) by (intro power_int_increasing) simp_all
  ultimately show ?thesis by linarith
qed

lemma finite_nonnegE:
  assumes "finite_nonneg x"
  obtains s m e where "x = Finite s m e" "0 \<le> m" "m \<le> 2 ^ 24" "- 149 \<le> e" "s \<longrightarrow> m = 0"
    "valof x = real_of_int m * 2 powi e"
  using assms by (cases x) (auto simp: finite_nonneg_def valof_def)

lemma b32_add_error:
  assumes "finite_nonneg a" "finite_nonneg b"
  shows "(\<exists>s. b32_add a b = Infinity s)
       \<or> (finite_nonneg (b32_add a b)
          \<and> \<bar>valof (b32_add a b) - (valof a + valof b)\<bar> \<le> (valof a + valof b) / 2 ^ 24)"
proof -
  from assms(1) obtain s1 m1 e1 where a: "a = Finite s1 m1 e1" "0 \<le> m1" "- 149 \<le> e1"
    "s1 \<longrightarrow> m1 = 0" "valof a = real_of_int m1 * 2 powi e1" by (rule finite_nonnegE)
  from assms(2) obtain s2 m2 e2 where b: "b = Finite s2 m2 e2" "0 \<le> m2" "- 149 \<le> e2"
    "s2 \<longrightarrow> m2 = 0" "valof b = real_of_int m2 * 2 powi e2" by (rule finite_nonnegE)
  define e where "e = min e1 e2"
  define v where "v = m1 * 2 ^ nat (e1 - e) + m2 * 2 ^ nat (e2 - e)"
  define s where "s = (if v = 0 then s1 \<and> s2 else v < 0)"
  have v0: "0 \<le> v" using a(2) b(2) by (simp add: v_def)
  have s1: "(if s1 then - 1 else 1) * m1 = m1" using a(4) by simp
  have s2: "(if s2 then - 1 else 1) * m2 = m2" using b(4) by simp
  have "b32_add a b = round_binary32 (if v = 0 then s1 \<and> s2 else v < 0) \<bar>v\<bar> e False"
    by (simp add: a(1) b(1) Let_def s1 s2 flip: e_def v_def)
  then have r: "b32_add a b = round_binary32 s v e False"
    using v0 by (simp add: s_def)
  have e: "- 149 \<le> e" using a(3) b(3) by (simp add: e_def)
  have p1: "(2::real) powi e * 2 ^ nat (e1 - e) = 2 powi e1"
    using powi_shift [of e "nat (e1 - e)"] by (simp add: e_def)
  have p2: "(2::real) powi e * 2 ^ nat (e2 - e) = 2 powi e2"
    using powi_shift [of e "nat (e2 - e)"] by (simp add: e_def)
  have val: "(real_of_int v + 0) * 2 powi e = valof a + valof b"
    by (simp add: v_def a(5) b(5) algebra_simps p1 p2)
  from round_binary32_error [of v 0 False s e] v0 obtain m' e' where
    m': "round_binary32 s v e False
           = (if m' \<noteq> 0 \<and> bitlen m' + e' > 128 then Infinity s else Finite s m' e')"
      "0 \<le> m'" "m' \<le> 2 ^ 24" "- 149 \<le> e'" "v = 0 \<longrightarrow> m' = 0"
      "\<bar>real_of_int m' * 2 powi e' - (real_of_int v + 0) * 2 powi e\<bar>
           \<le> (real_of_int v + 0) * 2 powi e / 2 ^ 24 + (if - 149 \<le> e then 0 else 2 powi (- 150))"
    by auto
  show ?thesis
  proof (cases "m' \<noteq> 0 \<and> bitlen m' + e' > 128")
    case True
    with r m'(1) show ?thesis by simp
  next
    case False
    with r m'(1) have f: "b32_add a b = Finite s m' e'" by simp
    have "s \<longrightarrow> m' = 0" using v0 m'(5) by (auto simp: s_def)
    then have "finite_nonneg (b32_add a b)" "valof (b32_add a b) = real_of_int m' * 2 powi e'"
      using m'(2,3,4) by (auto simp: f finite_nonneg_def valof_def)
    with m'(6) e show ?thesis unfolding val by simp
  qed
qed

lemma b32_div_error:
  assumes "finite_nonneg a" "finite_nonneg t" "0 < valof t"
  shows "\<exists>s m e. b32_div a t = (if m \<noteq> 0 \<and> bitlen m + e > 128 then Infinity s else Finite s m e)
      \<and> 0 \<le> m \<and> m \<le> 2 ^ 24 \<and> - 149 \<le> e \<and> (s \<longrightarrow> m = 0)
      \<and> \<bar>real_of_int m * 2 powi e - valof a / valof t\<bar>
           \<le> valof a / valof t / 2 ^ 24 + 2 powi (- 150)"
proof -
  from assms(1) obtain s1 m1 e1 where a: "a = Finite s1 m1 e1" "0 \<le> m1" "- 149 \<le> e1"
    "s1 \<longrightarrow> m1 = 0" "valof a = real_of_int m1 * 2 powi e1" by (rule finite_nonnegE)
  from assms(2) obtain s2 m2 e2 where t: "t = Finite s2 m2 e2" "0 \<le> m2" "m2 \<le> 2 ^ 24"
    "s2 \<longrightarrow> m2 = 0" "valof t = real_of_int m2 * 2 powi e2" by (rule finite_nonnegE)
  have m2: "0 < m2" using assms(3) t(2) unfolding t(5) by (cases "m2 = 0") simp_all
  with t(4) have s2: "\<not> s2" by auto
  define n where "n = m1 * 2 ^ 64"
  define q where "q = n div m2"
  define r where "r = n mod m2"
  define th where "th = real_of_int r / real_of_int m2"
  define e where "e = e1 - e2 - 64"
  have r: "0 \<le> r" "r < m2" using m2 by (simp_all add: r_def)
  have th: "0 \<le> th" "th < 1" "r \<noteq> 0 \<longleftrightarrow> th \<noteq> 0" using r m2 by (simp_all add: th_def)
  have q0: "0 \<le> q" using a(2) m2 by (simp add: q_def n_def pos_imp_zdiv_nonneg_iff)
  have "n = q * m2 + r" unfolding q_def r_def by (rule div_mult_mod_eq [symmetric])
  then have "real_of_int n = real_of_int q * real_of_int m2 + real_of_int r"
    by (metis of_int_add of_int_mult)
  then have qt: "real_of_int q + th = real_of_int n / real_of_int m2"
    using m2 by (simp add: th_def field_simps)
  have st: "r \<noteq> 0 \<longrightarrow> 25 \<le> bitlen q"
  proof
    assume "r \<noteq> 0"
    then have "m1 \<noteq> 0" by (auto simp: r_def n_def)
    with a(2) have "1 \<le> m1" by simp
    then have "1 * 2 ^ 64 \<le> n" unfolding n_def by (intro mult_right_mono) simp_all
    moreover have "2 ^ 24 * m2 \<le> 2 ^ 24 * 2 ^ 24" using t(3) by (intro mult_left_mono) simp_all
    ultimately have "2 ^ 24 * m2 \<le> n" by simp
    then have "(2 ^ 24 * m2) div m2 \<le> n div m2" using m2 by (intro zdiv_mono1) simp_all
    then have "2 ^ 24 \<le> q" using m2 by (simp add: q_def)
    then show "25 \<le> bitlen q" by (simp add: bitlen_ge_iff_power)
  qed
  define s where "s = (s1 \<noteq> s2)"
  have d: "b32_div a t = round_binary32 s q e (r \<noteq> 0)"
    using m2 by (simp add: a(1) t(1) Let_def s_def q_def r_def n_def e_def)
  have pw: "(2::real) powi e = 2 powi e1 / (2 powi e2 * 2 ^ 64)"
    by (simp add: e_def power_int_diff)
  have val: "(real_of_int q + th) * 2 powi e = valof a / valof t"
    unfolding qt pw a(5) t(5) using m2 by (simp add: n_def field_simps)
  from round_binary32_error [OF q0 th(1,2) th(3) st, of s e] obtain m' e' where
    m': "round_binary32 s q e (r \<noteq> 0)
           = (if m' \<noteq> 0 \<and> bitlen m' + e' > 128 then Infinity s else Finite s m' e')"
      "0 \<le> m'" "m' \<le> 2 ^ 24" "- 149 \<le> e'" "q = 0 \<longrightarrow> m' = 0"
      "\<bar>real_of_int m' * 2 powi e' - (real_of_int q + th) * 2 powi e\<bar>
           \<le> (real_of_int q + th) * 2 powi e / 2 ^ 24 + (if - 149 \<le> e then 0 else 2 powi (- 150))"
    by auto
  have sm: "s \<longrightarrow> m' = 0" using a(4) s2 m'(5) by (auto simp: s_def q_def n_def)
  have err: "\<bar>real_of_int m' * 2 powi e' - valof a / valof t\<bar>
           \<le> valof a / valof t / 2 ^ 24 + 2 powi (- 150)"
    using m'(6) unfolding val by (simp split: if_splits)
  have 1: "b32_div a t = (if m' \<noteq> 0 \<and> bitlen m' + e' > 128 then Infinity s else Finite s m' e')"
    by (simp only: d m'(1))
  from 1 m'(2,3,4) sm err show ?thesis by blast
qed

lemma b32_zero: "b32_of_int 0 = Finite False 0 0"
  by (simp add: b32_of_int_def round_binary32_def rne_shift_def)

lemma valof_nonneg: "finite_nonneg x \<Longrightarrow> 0 \<le> valof x"
  by (erule finite_nonnegE) simp

lemma sum_valof_nonneg: "\<forall>w\<in>set ws. finite_nonneg w \<Longrightarrow> 0 \<le> sum_list (map valof ws)"
  by (induction ws) (simp_all add: valof_nonneg)

lemma valof_le_sum:
  "\<forall>w\<in>set ws. finite_nonneg w \<Longrightarrow> w \<in> set ws \<Longrightarrow> valof w \<le> sum_list (map valof ws)"
proof (induction ws)
  case Nil
  then show ?case by simp
next
  case (Cons x xs)
  then have "0 \<le> valof x" "0 \<le> sum_list (map valof xs)"
    by (simp_all add: valof_nonneg sum_valof_nonneg)
  with Cons show ?case by auto
qed

lemma chain_step:
  fixes S W K T T' :: real
  assumes "0 \<le> S" "0 \<le> W" "0 \<le> K" "K \<le> 1"
    and "\<bar>T - S\<bar> \<le> K * S" "\<bar>T' - (T + W)\<bar> \<le> (T + W) / 2 ^ 24"
  shows "\<bar>T' - (S + W)\<bar> \<le> (K + 1 / 2 ^ 23) * (S + W)"
proof -
  have 1: "0 \<le> K * S" "K * S \<le> S" "0 \<le> K * W"
    using assms(1-4) by (simp_all add: mult_left_le_one_le)
  have 2: "(K + 1 / 8388608) * (S + W) = K * S + K * W + S / 8388608 + W / 8388608"
    by (simp add: algebra_simps)
  have n: "(2::real) ^ 24 = 16777216" "(2::real) ^ 23 = 8388608" by simp_all
  have a: "T - S \<le> K * S" "S - T \<le> K * S" using assms(5) by (simp_all only: abs_le_iff) simp_all
  have b: "T' - (T + W) \<le> (T + W) / 16777216" "(T + W) - T' \<le> (T + W) / 16777216"
    using assms(6) [unfolded n] by (simp_all only: abs_le_iff) simp_all
  have "T' - (S + W) \<le> K * S + K * W + S / 8388608 + W / 8388608"
    using 1 assms(1,2) a b by argo
  moreover have "(S + W) - T' \<le> K * S + K * W + S / 8388608 + W / 8388608"
    using 1 assms(1,2) a b by argo
  ultimately show ?thesis unfolding n 2 by (simp only: abs_le_iff) simp
qed

lemma total_error:
  assumes "\<forall>w\<in>set ws. finite_nonneg w" "finite_nonneg z" "valof z = 0"
    and "length ws \<le> 8388608"
  shows "(\<exists>s. foldl b32_add z ws = Infinity s)
       \<or> (finite_nonneg (foldl b32_add z ws)
          \<and> \<bar>valof (foldl b32_add z ws) - sum_list (map valof ws)\<bar>
               \<le> real (length ws) / 2 ^ 23 * sum_list (map valof ws))"
  using assms(1,4)
proof (induction ws rule: rev_induct)
  case Nil
  with assms(2,3) show ?case by simp
next
  case (snoc w xs)
  then have w: "finite_nonneg w" and xs: "\<forall>w\<in>set xs. finite_nonneg w"
    and l: "length xs < 8388608" by simp_all
  from snoc.IH [OF xs] l
  consider s where "foldl b32_add z xs = Infinity s"
    | "finite_nonneg (foldl b32_add z xs)"
      "\<bar>valof (foldl b32_add z xs) - sum_list (map valof xs)\<bar>
               \<le> real (length xs) / 2 ^ 23 * sum_list (map valof xs)"
    by auto
  then show ?case
  proof cases
    case 1
    from w obtain s' m e where "w = Finite s' m e" by (rule finite_nonnegE)
    with 1 show ?thesis by simp
  next
    case 2
    from b32_add_error [OF 2(1) w]
    consider s where "b32_add (foldl b32_add z xs) w = Infinity s"
      | "finite_nonneg (b32_add (foldl b32_add z xs) w)"
        "\<bar>valof (b32_add (foldl b32_add z xs) w) - (valof (foldl b32_add z xs) + valof w)\<bar>
           \<le> (valof (foldl b32_add z xs) + valof w) / 2 ^ 24"
      by auto
    then show ?thesis
    proof cases
      case 1
      then show ?thesis by simp
    next
      case b: 2
      have K: "0 \<le> real (length xs) / 2 ^ 23" "real (length xs) / 2 ^ 23 \<le> 1"
        using l by simp_all
      have eq1: "real (length xs) / 2 ^ 23 + 1 / 2 ^ 23 = real (length (xs @ [w])) / 2 ^ 23"
        by (simp add: field_simps)
      have eq2: "sum_list (map valof xs) + valof w = sum_list (map valof (xs @ [w]))" by simp
      have eq3: "foldl b32_add z (xs @ [w]) = b32_add (foldl b32_add z xs) w" by simp
      from chain_step [OF sum_valof_nonneg [OF xs] valof_nonneg [OF w] K 2(2) b(2)]
      have "\<bar>valof (b32_add (foldl b32_add z xs) w) - sum_list (map valof (xs @ [w]))\<bar>
          \<le> real (length (xs @ [w])) / 2 ^ 23 * sum_list (map valof (xs @ [w]))"
        unfolding eq1 eq2 .
      with b(1) show ?thesis unfolding eq3 by blast
    qed
  qed
qed

lemma b32_div_finite:
  assumes "finite_nonneg a" "finite_nonneg t" "0 < valof t" "valof a \<le> 2 * valof t"
  shows "(\<exists>s m e. b32_div a t = Finite s m e)
       \<and> \<bar>valof (b32_div a t) - valof a / valof t\<bar>
            \<le> valof a / valof t / 2 ^ 24 + 2 powi (- 150)"
proof -
  define q where "q = valof a / valof t"
  have q: "0 \<le> q" "q \<le> 2"
    using valof_nonneg [OF assms(1)] assms(3,4) by (simp_all add: q_def field_simps)
  from b32_div_error [OF assms(1,2,3)] obtain s m e where
    d: "b32_div a t = (if m \<noteq> 0 \<and> bitlen m + e > 128 then Infinity s else Finite s m e)"
    and m: "0 \<le> m" "s \<longrightarrow> m = 0"
    and err: "\<bar>real_of_int m * 2 powi e - q\<bar> \<le> q / 2 ^ 24 + 2 powi (- 150)"
    unfolding q_def by blast
  have small: "q / 2 ^ 24 + 2 powi (- 150) \<le> 2" using q by simp
  have "\<not> (m \<noteq> 0 \<and> bitlen m + e > 128)"
  proof
    assume "m \<noteq> 0 \<and> bitlen m + e > 128"
    with overflow_large [OF m(1)] have "2 powi 128 \<le> real_of_int m * 2 powi e" by simp
    moreover have "real_of_int m * 2 powi e \<le> 4" using err small q by linarith
    moreover have "(4::real) < 2 powi 128" by simp
    ultimately show False by linarith
  qed
  with d have f: "b32_div a t = Finite s m e" by simp
  have "valof (b32_div a t) = real_of_int m * 2 powi e"
    using m(2) by (auto simp: f valof_def)
  with f err show ?thesis unfolding q_def by simp
qed

lemma div_sum_error:
  assumes "\<forall>w\<in>set ws. finite_nonneg w \<and> valof w \<le> 2 * valof t" "finite_nonneg t" "0 < valof t"
  shows "\<bar>sum_list (map (\<lambda>w. valof (b32_div w t)) ws) - sum_list (map valof ws) / valof t\<bar>
           \<le> sum_list (map valof ws) / valof t / 2 ^ 24 + real (length ws) * 2 powi (- 150)"
  using assms(1)
proof (induction ws)
  case Nil
  show ?case by simp
next
  case (Cons x xs)
  then have x: "finite_nonneg x" "valof x \<le> 2 * valof t" by simp_all
  from b32_div_finite [OF x(1) assms(2,3) x(2)]
  have 1: "\<bar>valof (b32_div x t) - valof x / valof t\<bar>
            \<le> valof x / valof t / 2 ^ 24 + 2 powi (- 150)" by simp
  from Cons have 2: "\<bar>sum_list (map (\<lambda>w. valof (b32_div w t)) xs) - sum_list (map valof xs) / valof t\<bar>
           \<le> sum_list (map valof xs) / valof t / 2 ^ 24 + real (length xs) * 2 powi (- 150)"
    by simp
  have 3: "sum_list (map valof (x # xs)) / valof t
             = valof x / valof t + sum_list (map valof xs) / valof t"
    by (simp add: add_divide_distrib)
  have 4: "real (length (x # xs)) * 2 powi (- 150) = 2 powi (- 150) + real (length xs) * 2 powi (- 150)"
    by (simp add: algebra_simps)
  have 5: "sum_list (map (\<lambda>w. valof (b32_div w t)) (x # xs))
             = valof (b32_div x t) + sum_list (map (\<lambda>w. valof (b32_div w t)) xs)" by simp
  show ?case unfolding 3 4 5 add_divide_distrib using 1 2 by linarith
qed

lemma normalised_sum:
  assumes "\<forall>w\<in>set ws. finite_nonneg w" "length ws = 7"
    and "float_total ws = Finite False m e" "0 < m"
  shows "(\<forall>w\<in>set ws. \<exists>s m e. b32_div w (float_total ws) = Finite s m e)
       \<and> \<bar>sum_list (map (\<lambda>w. valof (b32_div w (float_total ws))) ws) - 1\<bar> \<le> 1 / 100000"
proof -
  define t where "t = float_total ws"
  define T where "T = valof t"
  define S where "S = sum_list (map valof ws)"
  have T: "0 < T" using assms(3,4) by (simp add: T_def t_def valof_def)
  have z: "finite_nonneg (b32_of_int 0)" "valof (b32_of_int 0) = 0"
    by (simp_all add: b32_zero finite_nonneg_def valof_def)
  from total_error [OF assms(1) z] assms(2,3)
  have t: "finite_nonneg t" and TS: "\<bar>T - S\<bar> \<le> 7 / 2 ^ 23 * S"
    by (simp_all add: float_total_def t_def T_def S_def)
  have S0: "0 \<le> S" unfolding S_def using assms(1) by (rule sum_valof_nonneg)
  have n: "(2::real) ^ 23 = 8388608" by simp
  have S2: "S \<le> 2 * T" using TS [unfolded n] S0 T by argo
  have w: "finite_nonneg w \<and> valof w \<le> 2 * valof t" if "w \<in> set ws" for w
    using valof_le_sum [OF assms(1) that] assms(1) that S2 by (simp add: S_def T_def)
  have fin: "\<exists>s m e. b32_div w t = Finite s m e" if "w \<in> set ws" for w
    using b32_div_finite [OF _ t, of w] w [OF that] T by (simp add: T_def)
  define K where "K = sum_list (map (\<lambda>w. valof (b32_div w t)) ws)"
  define Q where "Q = S / T"
  from div_sum_error [of ws t] w t T
  have KQ: "\<bar>K - Q\<bar> \<le> Q / 2 ^ 24 + 7 * 2 powi (- 150)"
    by (simp add: K_def Q_def S_def T_def assms(2))
  have Q: "0 \<le> Q" "Q \<le> 2" using S0 S2 T by (simp_all add: Q_def field_simps)
  have "1 - Q = (T - S) / T" using T by (simp add: Q_def field_simps)
  then have "\<bar>1 - Q\<bar> = \<bar>T - S\<bar> / T" using T by (simp add: abs_divide)
  also have "\<dots> \<le> (7 / 2 ^ 23 * S) / T" using TS T by (intro divide_right_mono) simp_all
  also have "\<dots> = 7 / 2 ^ 23 * Q" by (simp add: Q_def)
  finally have Q1: "\<bar>1 - Q\<bar> \<le> 7 / 8388608 * Q" by simp
  have d: "7 * (2::real) powi (- 150) \<le> 1 / 1000000" by simp
  have m: "(2::real) ^ 24 = 16777216" by simp
  have "\<bar>K - 1\<bar> \<le> 1 / 100000" using KQ [unfolded m] Q Q1 d by argo
  with fin show ?thesis by (simp add: K_def t_def)
qed

section \<open>The kernel\<close>

lemma neg_sq: "b32_mul (b32_neg x) x = b32_neg (b32_mul x x)"
  by (cases x) (simp_all add: round_binary32_def Let_def)

lemma round_sq_sign:
  "b32_mul (round_binary32 s m e st) (round_binary32 s m e st)
     = b32_mul (round_binary32 s' m e st) (round_binary32 s' m e st)"
proof -
  define k where "k = nat (max (bitlen m - 24) (- 149 - e))"
  define m' where "m' = rne_shift m k st"
  define e' where "e' = e + int k"
  define c where "c \<longleftrightarrow> m' \<noteq> 0 \<and> bitlen m' + e' > 128"
  have r: "round_binary32 s m e st = (if c then Infinity s else Finite s m' e')" for s
    unfolding round_binary32_def Let_def k_def m'_def e'_def c_def ..
  show ?thesis unfolding r by (cases c) simp_all
qed

lemma sq_sym: "b32_mul (b32_of_int (- n)) (b32_of_int (- n)) = b32_mul (b32_of_int n) (b32_of_int n)"
  unfolding b32_of_int_def abs_minus_cancel by (rule round_sq_sign)

lemma gauss_weight_sym: "gauss_weight L sigma (6 - i) = gauss_weight L sigma i"
proof -
  have "3 - (6 - i) = - (3 - i)" by simp
  then show ?thesis unfolding gauss_weight_def Let_def by (simp only: sq_sym)
qed

lemma prepare_kernel_is_gauss: "prepare_kernel binary32_fpu L sigma = Inr (gauss_kernel L sigma)"
  by (simp add: prepare_kernel_def Let_def kernel_fill.simps kernel_normalize.simps
      blur_consts array_set_def array_get_def rbind_def eval_nat_numeral binary32_fpu_def
      gauss_kernel_def gauss_weights_def gauss_weight_def float_total_def upto_0_6 neg_sq
      del: b32_mul.simps b32_neg.simps b32_add.simps b32_div.simps)

lemma gauss_kernel_sym:
  assumes "i \<in> {0..6}"
  shows "gauss_kernel L sigma ! (6 - i) = gauss_kernel L sigma ! i"
proof -
  from assms have "i = 0 \<or> i = 1 \<or> i = 2 \<or> i = 3 \<or> i = 4 \<or> i = 5 \<or> i = 6" by auto
  moreover have "gauss_weight L sigma 6 = gauss_weight L sigma 0"
    "gauss_weight L sigma 5 = gauss_weight L sigma 1"
    "gauss_weight L sigma 4 = gauss_weight L sigma 2"
    using gauss_weight_sym [of L sigma 0] gauss_weight_sym [of L sigma 1]
      gauss_weight_sym [of L sigma 2] by simp_all
  ultimately show ?thesis
    by (auto simp: gauss_kernel_def gauss_weights_def upto_0_6)
qed

lemma b32_eq_refl: "b32_eq x x \<longleftrightarrow> x \<noteq> NaN"
  by (cases x) simp_all

text \<open>
  Claim C8, as amended. For every \<^verbatim>\<open>sigma\<close> and every \<^verbatim>\<open>math.h\<close>, the kernel preparation
  (the same text in both back ends) yields exactly 7 coefficients: the weights
  \<open>(1 / sqrt (2 * pi * sigma^2)) * exp (- (3 - i)^2 / (2 * sigma^2))\<close> for \<open>i\<close> from 0 to 6,
  computed in the float and double arithmetic of the code, each divided by their total
  accumulated in single precision (\<open>gauss_kernel\<close>). The coefficients \<open>i\<close> and \<open>6 - i\<close> are
  the same float, so they compare equal with \<^verbatim>\<open>==\<close> exactly when they are not a NaN. When
  the 7 weights are finite and not negative and their total is finite and positive, the
  coefficients are finite and their sum is 1 within \<open>10 ^ - 5\<close>.
\<close>

theorem prepare_kernel_gaussian:
  "prepare_kernel binary32_fpu L sigma = Inr (gauss_kernel L sigma)
   \<and> length (gauss_kernel L sigma) = 7
   \<and> (\<forall>i\<in>{0..6}. gauss_kernel L sigma ! (6 - i) = gauss_kernel L sigma ! i
          \<and> (b32_eq (gauss_kernel L sigma ! i) (gauss_kernel L sigma ! (6 - i))
               \<longleftrightarrow> gauss_kernel L sigma ! i \<noteq> NaN))
   \<and> (list_all finite_nonneg (gauss_weights L sigma)
        \<and> is_positive (float_total (gauss_weights L sigma)) \<longrightarrow>
      list_all is_finite (gauss_kernel L sigma)
        \<and> \<bar>sum_list (map valof (gauss_kernel L sigma)) - 1\<bar> \<le> 1 / 100000)"
proof (intro conjI ballI impI)
  show "prepare_kernel binary32_fpu L sigma = Inr (gauss_kernel L sigma)"
    by (rule prepare_kernel_is_gauss)
  show l: "length (gauss_kernel L sigma) = 7"
    by (simp add: gauss_kernel_def gauss_weights_def upto_0_6)
  fix i :: nat assume i: "i \<in> {0..6}"
  show s: "gauss_kernel L sigma ! (6 - i) = gauss_kernel L sigma ! i"
    using i by (rule gauss_kernel_sym)
  show "b32_eq (gauss_kernel L sigma ! i) (gauss_kernel L sigma ! (6 - i))
          \<longleftrightarrow> gauss_kernel L sigma ! i \<noteq> NaN"
    unfolding s by (rule b32_eq_refl)
next
  define ws where "ws = gauss_weights L sigma"
  assume "list_all finite_nonneg (gauss_weights L sigma)
        \<and> is_positive (float_total (gauss_weights L sigma))"
  then have f: "\<forall>w\<in>set ws. finite_nonneg w" and p: "is_positive (float_total ws)"
    by (simp_all add: ws_def list_all_iff)
  from p obtain m e where t: "float_total ws = Finite False m e" "0 < m"
    by (cases "float_total ws") (auto simp: is_positive_def)
  have l: "length ws = 7" by (simp add: ws_def gauss_weights_def upto_0_6)
  from normalised_sum [OF f l t]
  have 1: "\<forall>w\<in>set ws. \<exists>s m e. b32_div w (float_total ws) = Finite s m e"
    and 2: "\<bar>sum_list (map (\<lambda>w. valof (b32_div w (float_total ws))) ws) - 1\<bar> \<le> 1 / 100000"
    by simp_all
  have k: "gauss_kernel L sigma = map (\<lambda>w. b32_div w (float_total ws)) ws"
    by (simp add: gauss_kernel_def ws_def)
  from 1 show "list_all is_finite (gauss_kernel L sigma)"
    unfolding k by (auto simp: list_all_iff is_finite_def)
  from 2 show "\<bar>sum_list (map valof (gauss_kernel L sigma)) - 1\<bar> \<le> 1 / 100000"
    unfolding k by (simp add: comp_def)
qed

theorem prepare_kernel_gaussian_witness:
  "prepare_kernel binary32_fpu libm_at_sigma_1 (Finite False 1 0)
     = Inr [Finite False 9519899 (- 31), Finite False 14497014 (- 28),
            Finite False 16242777 (- 26), Finite False 13389906 (- 25),
            Finite False 16242777 (- 26), Finite False 14497014 (- 28),
            Finite False 9519899 (- 31)]
   \<and> b32_eq (Finite False 14497014 (- 28)) (Finite False 14497014 (- 28))
   \<and> \<bar>sum_list (map valof
         [Finite False 9519899 (- 31), Finite False 14497014 (- 28),
          Finite False 16242777 (- 26), Finite False 13389906 (- 25),
          Finite False 16242777 (- 26), Finite False 14497014 (- 28),
          Finite False 9519899 (- 31)]) - 1\<bar> \<le> 1 / 100000"
proof -
  have k: "gauss_kernel libm_at_sigma_1 (Finite False 1 0)
     = [Finite False 9519899 (- 31), Finite False 14497014 (- 28),
        Finite False 16242777 (- 26), Finite False 13389906 (- 25),
        Finite False 16242777 (- 26), Finite False 14497014 (- 28),
        Finite False 9519899 (- 31)]"
    by code_simp
  have w: "list_all finite_nonneg (gauss_weights libm_at_sigma_1 (Finite False 1 0))"
    by code_simp
  have t: "is_positive (float_total (gauss_weights libm_at_sigma_1 (Finite False 1 0)))"
    by code_simp
  from prepare_kernel_gaussian [of libm_at_sigma_1 "Finite False 1 0"] w t
  show ?thesis unfolding k by simp
qed

text \<open>
  Claim C8 as stated fails for some positive \<^verbatim>\<open>sigma\<close>. For \<^verbatim>\<open>sigma\<close> \<open>= 2 ^ - 100\<close> the
  argument of \<^verbatim>\<open>sqrtf\<close> underflows to 0, so that \<^verbatim>\<open>coeff\<close> is \<open>+\<infinity>\<close>, and the arguments
  of \<^verbatim>\<open>expf\<close> away from the centre overflow to \<open>-\<infinity>\<close>, so that these weights are
  \<open>\<infinity> * 0\<close>; for \<^verbatim>\<open>sigma\<close> \<open>= 2 ^ 100\<close> the argument of \<^verbatim>\<open>sqrtf\<close> overflows, \<^verbatim>\<open>coeff\<close>
  is 0, every weight is 0 and so is the total. In both cases all 7 coefficients are NaN,
  whatever the library returns at the arguments where C leaves it open: their sum is a NaN,
  not a number within \<open>10 ^ - 5\<close> of 1, and no coefficient compares equal to another.
\<close>

theorem kernel_is_nan_for_extreme_sigma:
  "\<forall>sq ex.
     prepare_kernel binary32_fpu (libm sq ex) (Finite False 1 (- 100)) = Inr (replicate 7 NaN)
     \<and> prepare_kernel binary32_fpu (libm sq ex) (Finite False 1 100) = Inr (replicate 7 NaN)
     \<and> 0 < valof (Finite False 1 (- 100)) \<and> 0 < valof (Finite False 1 100)
     \<and> float_total (replicate 7 NaN) = NaN
     \<and> \<not> b32_eq NaN NaN"
proof (intro allI conjI)
  fix sq ex
  show "prepare_kernel binary32_fpu (libm sq ex) (Finite False 1 (- 100)) = Inr (replicate 7 NaN)"
    by code_simp
  show "prepare_kernel binary32_fpu (libm sq ex) (Finite False 1 100) = Inr (replicate 7 NaN)"
    by code_simp
  show "0 < valof (Finite False 1 (- 100))" "0 < valof (Finite False 1 100)"
    by (simp_all add: valof_def)
  show "float_total (replicate 7 NaN) = NaN"
    by (simp add: float_total_def eval_nat_numeral)
  show "\<not> b32_eq NaN NaN" by simp
qed

end
